theory Spec2Isabelle
  imports Complex_Main
begin

section \<open>The movie list of Main.c as a heap of nodes\<close>

text \<open>
  Main.c keeps two singly linked lists of \<open>Movie\<close> nodes, the library and the watchlist,
  and edits them through raw \<open>next\<close> pointers. The embedding keeps the pointers: a heap
  maps every address to the node stored there, a pointer is an address or \<open>None\<close> for
  \<open>NULL\<close>, and every function of the source takes the heap and returns the new one.

  \<^item> A \<open>Movie**\<close> parameter is always \<open>&library\<close> or \<open>&watchlist\<close>, so it is never
    \<open>NULL\<close>; the model passes the head pointer \<open>*list\<close> in and returns it.
  \<^item> A loop over \<open>next\<close> pointers need not end on a cyclic heap, so every loop is a
    \<open>partial_function\<close> in the option monad: \<open>None\<close> means that the call does not return.
  \<^item> Reading a field through \<open>NULL\<close> is the outcome \<open>Crash\<close>.
  \<^item> \<open>duration\<close> is a C \<open>double\<close>. Its type is left open as \<open>'d\<close>, and the one place
    that computes with it, \<open>computeDuration\<close>, takes the addition and the zero as
    parameters, so that its theorems assume nothing about floating point arithmetic. The
    addition of the doubles themselves (binary64, round to nearest, ties to even) is
    \<open>binary64_add\<close> below.
  \<^item> C's \<open>int\<close> is \<open>int\<close>: the counters count nodes of a list, which stay far below
    \<open>2^31\<close>.
  \<^item> Titles and genres are \<open>char[35]\<close> buffers holding a terminated string; the model
    holds the string, and \<open>strcmp(a, b) == 0\<close> is equality.
\<close>

type_synonym addr = nat
type_synonym ptr = "addr option"

record 'd Movie =
  title :: string
  genre :: string
  duration :: 'd
  "next" :: ptr

type_synonym 'd heap = "addr \<Rightarrow> 'd Movie"

datatype 'a outcome = Ret 'a | Crash

datatype status = Success | EINVAL | ERANGE | ENOMEM

text \<open>Sequencing of two calls: the second runs on what the first returned.\<close>

definition seq :: "'a outcome option \<Rightarrow> ('a \<Rightarrow> 'b outcome option) \<Rightarrow> 'b outcome option" where
  "seq m f = (case m of None \<Rightarrow> None | Some Crash \<Rightarrow> Some Crash | Some (Ret x) \<Rightarrow> f x)"

subsection \<open>createMovieNode\<close>

text \<open>
  \<open>calloc\<close> is the environment's: its result is the parameter \<open>fresh\<close>, \<open>None\<close> when the
  allocation fails. The status is the function's local \<open>status\<close>, which it stores in
  \<open>errno\<close> when it fails. All callers pass non-null strings. \<open>calloc\<close> zeroes the node, so
  \<open>next\<close> starts as \<open>NULL\<close>.
\<close>

definition createMovieNode ::
  "'d heap \<Rightarrow> ptr \<Rightarrow> string \<Rightarrow> string \<Rightarrow> 'd \<Rightarrow> status \<times> 'd heap \<times> ptr" where
  "createMovieNode h fresh t g d =
     (if length t > 35 - 1 then (ERANGE, h, None)
      else if length g > 35 - 1 then (ERANGE, h, None)
      else (case fresh of
              None \<Rightarrow> (ENOMEM, h, None)
            | Some a \<Rightarrow>
                (Success, h(a := \<lparr>title = t, genre = g, duration = d, next = None\<rparr>), Some a)))"

subsection \<open>promptForInt\<close>

text \<open>
  \<open>entered\<close> lists the integers the user types at the prompt, in order (an entry that is
  not an integer is rejected by the same loop and is left out). \<open>strtol\<close> returns a
  \<open>long\<close>, of 64 bits, clamped to its range, and the source stores it in the \<open>int\<close>
  variable \<open>integer\<close> before it tests the range: the value tested and returned is the typed
  one reduced to 32 bits, two's complement. The loop returns the first one that is then in
  range; with no such entry it keeps prompting.
\<close>

definition strtol :: "int \<Rightarrow> int" where
  "strtol typed = max (- (2 ^ 63)) (min (2 ^ 63 - 1) typed)"

definition int_of_long :: "int \<Rightarrow> int" where
  "int_of_long n = (n + 2 ^ 31) mod 2 ^ 32 - 2 ^ 31"

definition promptForInt :: "int \<Rightarrow> int \<Rightarrow> int list \<Rightarrow> int option" where
  "promptForInt minValue maxValue entered =
     find (\<lambda>integer. \<not> (integer < minValue \<or> integer > maxValue))
       (map (\<lambda>typed. int_of_long (strtol typed)) entered)"

subsection \<open>getCount\<close>

partial_function (option) getCount_loop :: "'d heap \<Rightarrow> addr \<Rightarrow> int \<Rightarrow> int option" where
  "getCount_loop h list count =
     (case next (h list) of
        None \<Rightarrow> Some count
      | Some n \<Rightarrow> getCount_loop h n (count + 1))"

definition getCount :: "'d heap \<Rightarrow> ptr \<Rightarrow> int option" where
  "getCount h list =
     (case list of None \<Rightarrow> Some 0 | Some l \<Rightarrow> getCount_loop h l (0 + 1))"

subsection \<open>insertMovie\<close>

text \<open>
  The loop compares \<open>count\<close> with \<open>position\<close> first and reads \<open>itr->next\<close> second, so on
  an empty list (\<open>itr == NULL\<close>) every position but 0 dereferences \<open>NULL\<close>.
\<close>

partial_function (option) insertMovie_loop ::
  "'d heap \<Rightarrow> ptr \<Rightarrow> addr \<Rightarrow> int \<Rightarrow> ptr \<Rightarrow> ptr \<Rightarrow> int
     \<Rightarrow> (status \<times> 'd heap \<times> ptr) outcome option" where
  "insertMovie_loop h list ins position prev itr count =
     (if count = position then
        (let h1 = (case prev of None \<Rightarrow> h | Some p \<Rightarrow> h(p := (h p)\<lparr>next := Some ins\<rparr>));
             h2 = h1(ins := (h1 ins)\<lparr>next := itr\<rparr>)
         in Some (Ret (Success, h2, if position = 0 then Some ins else list)))
      else
        (case itr of
           None \<Rightarrow> Some Crash
         | Some i \<Rightarrow>
             (case next (h i) of
                None \<Rightarrow> Some (Ret (ERANGE, h, list))
              | Some n \<Rightarrow> insertMovie_loop h list ins position (Some i) (Some n) (count + 1))))"

definition insertMovie ::
  "'d heap \<Rightarrow> ptr \<Rightarrow> ptr \<Rightarrow> int \<Rightarrow> (status \<times> 'd heap \<times> ptr) outcome option" where
  "insertMovie h list movie position =
     (case movie of
        None \<Rightarrow> Some (Ret (EINVAL, h, list))
      | Some ins \<Rightarrow> insertMovie_loop h list ins position None list 0)"

subsection \<open>appendMovie\<close>

text \<open>The loop walks to the last node and returns it.\<close>

partial_function (option) appendMovie_loop :: "'d heap \<Rightarrow> addr \<Rightarrow> addr option" where
  "appendMovie_loop h head =
     (case next (h head) of
        None \<Rightarrow> Some head
      | Some n \<Rightarrow> appendMovie_loop h n)"

definition appendMovie ::
  "'d heap \<Rightarrow> ptr \<Rightarrow> ptr \<Rightarrow> (status \<times> 'd heap \<times> ptr) option" where
  "appendMovie h list movie =
     (case movie of
        None \<Rightarrow> Some (EINVAL, h, list)
      | Some m \<Rightarrow>
          (case list of
             None \<Rightarrow> Some (Success, h(m := (h m)\<lparr>next := None\<rparr>), Some m)
           | Some l \<Rightarrow>
               (case appendMovie_loop h l of
                  None \<Rightarrow> None
                | Some head \<Rightarrow>
                    (let h1 = h(head := (h head)\<lparr>next := Some m\<rparr>)
                     in Some (Success, h1(m := (h1 m)\<lparr>next := None\<rparr>), list)))))"

subsection \<open>removeMovie\<close>

text \<open>
  The result is the heap, the head pointer \<open>*list\<close> and the returned \<open>removedMovie\<close>.
  The head branch relinks \<open>*list\<close> and returns the node as it is; the loop branch also
  clears the node's \<open>next\<close>. With a one-node list and another node to remove, \<open>itr\<close>
  starts as \<open>NULL\<close> and \<open>itr->next\<close> is read through it.
\<close>

partial_function (option) removeMovie_loop ::
  "'d heap \<Rightarrow> ptr \<Rightarrow> addr \<Rightarrow> addr \<Rightarrow> ptr \<Rightarrow> ('d heap \<times> ptr \<times> ptr) outcome option" where
  "removeMovie_loop h list movie prev itr =
     (case itr of
        None \<Rightarrow> Some Crash
      | Some i \<Rightarrow>
          (if i = movie then
             (let h1 = h(prev := (h prev)\<lparr>next := next (h i)\<rparr>);
                  h2 = h1(i := (h1 i)\<lparr>next := None\<rparr>)
              in Some (Ret (h2, list, Some i)))
           else
             (case next (h i) of
                None \<Rightarrow> Some (Ret (h, list, None))
              | Some n \<Rightarrow> removeMovie_loop h list movie i (Some n))))"

definition removeMovie ::
  "'d heap \<Rightarrow> ptr \<Rightarrow> ptr \<Rightarrow> ('d heap \<times> ptr \<times> ptr) outcome option" where
  "removeMovie h list movie =
     (case list of
        None \<Rightarrow> Some (Ret (h, list, None))
      | Some l \<Rightarrow>
          (case movie of
             None \<Rightarrow> Some (Ret (h, list, None))
           | Some m \<Rightarrow>
               (if m = l then Some (Ret (h, next (h m), Some m))
                else removeMovie_loop h list m l (next (h l)))))"

subsection \<open>computeDuration\<close>

text \<open>
  The function returns the \<open>double\<close> alone: on \<open>NULL\<close> it sets its local \<open>status\<close> to
  \<open>EINVAL\<close>, skips the loop and returns the initial \<open>0.0\<close>; the status is dropped.
\<close>

partial_function (option) computeDuration_loop ::
  "('d \<Rightarrow> 'd \<Rightarrow> 'd) \<Rightarrow> 'd heap \<Rightarrow> addr \<Rightarrow> 'd \<Rightarrow> 'd option" where
  "computeDuration_loop add h itr dur =
     (case next (h itr) of
        None \<Rightarrow> Some (add dur (duration (h itr)))
      | Some n \<Rightarrow> computeDuration_loop add h n (add dur (duration (h itr))))"

definition computeDuration :: "('d \<Rightarrow> 'd \<Rightarrow> 'd) \<Rightarrow> 'd \<Rightarrow> 'd heap \<Rightarrow> ptr \<Rightarrow> 'd option" where
  "computeDuration add zero h list =
     (case list of None \<Rightarrow> Some zero | Some l \<Rightarrow> computeDuration_loop add h l zero)"

subsection \<open>The addition of doubles\<close>

text \<open>
  A finite double is a pair \<open>(m, e)\<close> of integers standing for \<open>m * 2^e\<close>, with \<open>0.0\<close> as
  \<open>(0, 0)\<close>. \<open>binary64_add\<close> adds two of them exactly and rounds the sum to 53 significant
  bits, to the nearest and to the even one in a tie, as \<open>duration += itr->duration\<close> does
  on doubles; \<open>excess\<close> counts the bits to drop. The range of the exponent is not
  modelled: durations are far from overflow.
\<close>

type_synonym binary64 = "int \<times> int"

function excess :: "nat \<Rightarrow> nat" where
  "excess n = (if n < 2 ^ 53 then 0 else Suc (excess (n div 2)))"
  by pat_completeness auto
termination
  by (relation "measure (\<lambda>n. n)") auto

definition round53 :: "binary64 \<Rightarrow> binary64" where
  "round53 x =
     (case x of (m, e) \<Rightarrow>
        (let k = excess (nat \<bar>m\<bar>);
             q = \<bar>m\<bar> div 2 ^ k;
             r = \<bar>m\<bar> mod 2 ^ k
         in if k = 0 then (m, e)
            else if r > 2 ^ (k - 1) \<or> (r = 2 ^ (k - 1) \<and> odd q) then (sgn m * (q + 1), e + int k)
            else (sgn m * q, e + int k)))"

definition binary64_add :: "binary64 \<Rightarrow> binary64 \<Rightarrow> binary64" where
  "binary64_add x y =
     (case x of (m1, e1) \<Rightarrow> case y of (m2, e2) \<Rightarrow>
        round53 (m1 * 2 ^ nat (e1 - min e1 e2) + m2 * 2 ^ nat (e2 - min e1 e2), min e1 e2))"

definition binary64_value :: "binary64 \<Rightarrow> real" where
  "binary64_value x = (case x of (m, e) \<Rightarrow> of_int m * 2 powr of_int e)"

subsection \<open>searchByTitle and getNodePosition\<close>

partial_function (option) searchByTitle_loop :: "'d heap \<Rightarrow> addr \<Rightarrow> string \<Rightarrow> ptr option" where
  "searchByTitle_loop h itr t =
     (if title (h itr) = t then Some (Some itr)
      else (case next (h itr) of
              None \<Rightarrow> Some None
            | Some n \<Rightarrow> searchByTitle_loop h n t))"

definition searchByTitle :: "'d heap \<Rightarrow> ptr \<Rightarrow> string \<Rightarrow> ptr option" where
  "searchByTitle h list t =
     (case list of None \<Rightarrow> Some None | Some l \<Rightarrow> searchByTitle_loop h l t)"

text \<open>The source's loop advances \<open>itr\<close> and leaves \<open>index\<close> as it was initialised.\<close>

partial_function (option) getNodePosition_loop ::
  "'d heap \<Rightarrow> addr \<Rightarrow> string \<Rightarrow> int \<Rightarrow> int option" where
  "getNodePosition_loop h itr t index =
     (if title (h itr) = t then Some index
      else (case next (h itr) of
              None \<Rightarrow> Some (- 1)
            | Some n \<Rightarrow> getNodePosition_loop h n t index))"

definition getNodePosition :: "'d heap \<Rightarrow> ptr \<Rightarrow> string \<Rightarrow> int option" where
  "getNodePosition h list t =
     (case list of None \<Rightarrow> Some (- 1) | Some l \<Rightarrow> getNodePosition_loop h l t 0)"

subsection \<open>handleAddMovieMenuOption: library to watchlist\<close>

text \<open>
  \<open>movie\<close> is the library node the caller found (the caller checks it against \<open>NULL\<close>).
  No status of \<open>createMovieNode\<close>, \<open>insertMovie\<close> or \<open>appendMovie\<close> is looked at:
  \<open>removeMovie\<close> runs whatever they returned. The option comes from
  \<open>promptForInt(1, 3, ...)\<close>, so the \<open>default\<close> branch is outside the type.
\<close>

datatype AddMovieMenuOption = AddToBeginning | AddToEnd | InsertWithin

definition handleAddMovieMenuOption ::
  "AddMovieMenuOption \<Rightarrow> addr \<Rightarrow> 'd heap \<Rightarrow> ptr \<Rightarrow> ptr \<Rightarrow> ptr \<Rightarrow> int list
     \<Rightarrow> ('d heap \<times> ptr \<times> ptr) outcome option" where
  "handleAddMovieMenuOption option movie h library watchlist fresh entered =
     (case createMovieNode h fresh (title (h movie)) (genre (h movie)) (duration (h movie)) of
        (st, h1, newMovie) \<Rightarrow>
          (case option of
             AddToBeginning \<Rightarrow>
               seq (insertMovie h1 watchlist newMovie 0) (\<lambda>(st1, h2, watchlist2).
               seq (removeMovie h2 library (Some movie)) (\<lambda>(h3, library3, removed).
               Some (Ret (h3, library3, watchlist2))))
           | AddToEnd \<Rightarrow>
               (case appendMovie h1 watchlist newMovie of
                  None \<Rightarrow> None
                | Some (st1, h2, watchlist2) \<Rightarrow>
                    seq (removeMovie h2 library (Some movie)) (\<lambda>(h3, library3, removed).
                    Some (Ret (h3, library3, watchlist2))))
           | InsertWithin \<Rightarrow>
               (case getCount h1 watchlist of
                  None \<Rightarrow> None
                | Some count \<Rightarrow>
                    (case promptForInt 1 count entered of
                       None \<Rightarrow> None
                     | Some position \<Rightarrow>
                         seq (insertMovie h1 watchlist newMovie (position - 1))
                           (\<lambda>(st1, h2, watchlist2).
                         seq (removeMovie h2 library (Some movie)) (\<lambda>(h3, library3, removed).
                         Some (Ret (h3, library3, watchlist2))))))))"

subsection \<open>handleWatchlistMenuOption: the cases that edit the lists\<close>

text \<open>
  Each of the following is the body of one \<open>case\<close> of the \<open>switch\<close>, with the title the
  user typed as \<open>t\<close>. The messages printed are left out.
\<close>

partial_function (option) MoveMovieUp_loop ::
  "'d heap \<Rightarrow> ptr \<Rightarrow> addr \<Rightarrow> string \<Rightarrow> ('d heap \<times> ptr) outcome option" where
  "MoveMovieUp_loop h watchlist itr t =
     (case next (h itr) of
        None \<Rightarrow> Some Crash
      | Some n \<Rightarrow>
          (if title (h n) = t then
             (let temp = next (h n);
                  h1 = h(n := (h n)\<lparr>next := Some itr\<rparr>);
                  h2 = h1(itr := (h1 itr)\<lparr>next := temp\<rparr>)
              in Some (Ret (h2, if Some itr = watchlist then Some n else watchlist)))
           else MoveMovieUp_loop h watchlist n t))"

definition MoveMovieUp :: "'d heap \<Rightarrow> ptr \<Rightarrow> string \<Rightarrow> ('d heap \<times> ptr) outcome option" where
  "MoveMovieUp h watchlist t =
     (case searchByTitle h watchlist t of
        None \<Rightarrow> None
      | Some None \<Rightarrow> Some (Ret (h, watchlist))
      | Some (Some found) \<Rightarrow>
          (case watchlist of
             None \<Rightarrow> Some Crash
           | Some itr \<Rightarrow>
               (if title (h itr) \<noteq> t then MoveMovieUp_loop h watchlist itr t
                else Some (Ret (h, watchlist)))))"

partial_function (option) MoveMovieDown_loop ::
  "'d heap \<Rightarrow> ptr \<Rightarrow> addr \<Rightarrow> string \<Rightarrow> ('d heap \<times> ptr) outcome option" where
  "MoveMovieDown_loop h watchlist itr t =
     (case next (h itr) of
        None \<Rightarrow> Some (Ret (h, watchlist))
      | Some n \<Rightarrow>
          (if title (h itr) = t then
             (let temp = next (h n);
                  h1 = h(n := (h n)\<lparr>next := Some itr\<rparr>);
                  h2 = h1(itr := (h1 itr)\<lparr>next := temp\<rparr>)
              in Some (Ret (h2, if Some itr = watchlist then Some n else watchlist)))
           else MoveMovieDown_loop h watchlist n t))"

definition MoveMovieDown :: "'d heap \<Rightarrow> ptr \<Rightarrow> string \<Rightarrow> ('d heap \<times> ptr) outcome option" where
  "MoveMovieDown h watchlist t =
     (case searchByTitle h watchlist t of
        None \<Rightarrow> None
      | Some None \<Rightarrow> Some (Ret (h, watchlist))
      | Some (Some found) \<Rightarrow>
          (case watchlist of
             None \<Rightarrow> Some Crash
           | Some itr \<Rightarrow> MoveMovieDown_loop h watchlist itr t))"

text \<open>
  The \<open>RemoveMovie\<close> case moves a movie back to the library: it copies the node, unlinks
  the original from the watchlist and only then appends the copy.
\<close>

definition RemoveMovie ::
  "'d heap \<Rightarrow> ptr \<Rightarrow> ptr \<Rightarrow> string \<Rightarrow> ptr \<Rightarrow> ('d heap \<times> ptr \<times> ptr) outcome option" where
  "RemoveMovie h library watchlist t fresh =
     (case searchByTitle h watchlist t of
        None \<Rightarrow> None
      | Some None \<Rightarrow> Some (Ret (h, library, watchlist))
      | Some (Some temp) \<Rightarrow>
          (case createMovieNode h fresh (title (h temp)) (genre (h temp)) (duration (h temp)) of
             (st, h1, newMovie) \<Rightarrow>
               seq (removeMovie h1 watchlist (Some temp)) (\<lambda>(h2, watchlist2, removed).
               (case appendMovie h2 library newMovie of
                  None \<Rightarrow> None
                | Some (st2, h3, library3) \<Rightarrow> Some (Ret (h3, library3, watchlist2))))))"

subsection \<open>loadMovieWatchlist\<close>

text \<open>
  Reading and decoding the file is outside the model: the loop runs over the decoded
  records, each with the result \<open>calloc\<close> gives when its node is created. The result is
  the heap, the library and the new watchlist. A record whose node cannot be created ends
  the loop.
\<close>

fun loadMovieWatchlist_loop ::
  "'d heap \<Rightarrow> ptr \<Rightarrow> ptr \<Rightarrow> (string \<times> string \<times> 'd \<times> ptr) list
     \<Rightarrow> ('d heap \<times> ptr \<times> ptr) outcome option" where
  "loadMovieWatchlist_loop h library watchlist [] = Some (Ret (h, library, watchlist))"
| "loadMovieWatchlist_loop h library watchlist ((t, g, d, fresh) # records) =
     (case createMovieNode h fresh t g d of
        (st, h1, None) \<Rightarrow> Some (Ret (h1, library, watchlist))
      | (st, h1, Some movie) \<Rightarrow>
          (case appendMovie h1 watchlist (Some movie) of
             None \<Rightarrow> None
           | Some (st1, h2, watchlist2) \<Rightarrow>
               (case searchByTitle h2 library (title (h2 movie)) of
                  None \<Rightarrow> None
                | Some None \<Rightarrow> loadMovieWatchlist_loop h2 library watchlist2 records
                | Some (Some temp) \<Rightarrow>
                    seq (removeMovie h2 library (Some temp)) (\<lambda>(h3, library3, removed).
                    loadMovieWatchlist_loop h3 library3 watchlist2 records))))"

definition loadMovieWatchlist ::
  "'d heap \<Rightarrow> ptr \<Rightarrow> (string \<times> string \<times> 'd \<times> ptr) list
     \<Rightarrow> ('d heap \<times> ptr \<times> ptr) outcome option" where
  "loadMovieWatchlist h library records = loadMovieWatchlist_loop h library None records"

subsection \<open>Well-formed lists\<close>

text \<open>
  \<open>linked h p as\<close>: following \<open>next\<close> from \<open>p\<close> visits exactly the addresses \<open>as\<close> and
  then reaches \<open>NULL\<close>. \<open>movies h as\<close> is the sequence of movies stored at them.
\<close>

fun linked :: "'d heap \<Rightarrow> ptr \<Rightarrow> addr list \<Rightarrow> bool" where
  "linked h p [] = (p = None)"
| "linked h p (a # as) = (p = Some a \<and> linked h (next (h a)) as)"

definition movies :: "'d heap \<Rightarrow> addr list \<Rightarrow> (string \<times> string \<times> 'd) list" where
  "movies h as = map (\<lambda>a. (title (h a), genre (h a), duration (h a))) as"

subsection \<open>What a load leaves in the library\<close>

text \<open>
  \<open>first_titled h t as\<close> is the first node of \<open>as\<close> titled \<open>t\<close>, and
  \<open>remove_titles h as ts\<close> removes, for each title of \<open>ts\<close> in turn, the first node so
  titled that is still there. A file whose nodes are all created is given as records with
  the address of each new node: \<open>records_of\<close> is the input of the loop, \<open>fresh_of\<close> the
  new addresses and \<open>data_of\<close> the decoded movies.
\<close>

definition first_titled :: "'d heap \<Rightarrow> string \<Rightarrow> addr list \<Rightarrow> addr option" where
  "first_titled h t as = find (\<lambda>x. title (h x) = t) as"

fun remove_titles :: "'d heap \<Rightarrow> addr list \<Rightarrow> string list \<Rightarrow> addr list" where
  "remove_titles h as [] = as"
| "remove_titles h as (t # ts) =
     remove_titles h (case first_titled h t as of None \<Rightarrow> as | Some a \<Rightarrow> remove1 a as) ts"

definition fresh_of :: "(string \<times> string \<times> 'd \<times> addr) list \<Rightarrow> addr list" where
  "fresh_of recs = map (\<lambda>(t, g, d, f). f) recs"

definition data_of :: "(string \<times> string \<times> 'd \<times> addr) list \<Rightarrow> (string \<times> string \<times> 'd) list" where
  "data_of recs = map (\<lambda>(t, g, d, f). (t, g, d)) recs"

definition records_of ::
  "(string \<times> string \<times> 'd \<times> addr) list \<Rightarrow> (string \<times> string \<times> 'd \<times> ptr) list" where
  "records_of recs = map (\<lambda>(t, g, d, f). (t, g, d, Some f)) recs"

subsection \<open>Example heaps\<close>

text \<open>
  Every address of an example heap that is not named holds \<open>blank\<close>. \<open>alien_up\<close> holds
  the list Alien, Up at the addresses 1 and 2, and a detached node (Heat) at address 3.
\<close>

definition blank :: "real Movie" where
  "blank = \<lparr>title = [], genre = [], duration = 0, next = None\<rparr>"

definition alien_up :: "real heap" where
  "alien_up = (\<lambda>a. blank)
     (1 := \<lparr>title = ''Alien'', genre = ''Sci-Fi'', duration = 1.5, next = Some 2\<rparr>,
      2 := \<lparr>title = ''Up'', genre = ''Animation'', duration = 1.6, next = None\<rparr>,
      3 := \<lparr>title = ''Heat'', genre = ''Crime'', duration = 2.8, next = None\<rparr>)"

text \<open>
  \<open>three\<close> is \<open>alien_up\<close> with Heat linked after Up: the list Alien, Up, Heat.
  \<open>up_alien\<close> holds the same two nodes as \<open>alien_up\<close> in the order Up, Alien.
\<close>

definition three :: "real heap" where
  "three = alien_up(2 := (alien_up 2)\<lparr>next := Some 3\<rparr>)"

definition up_alien :: "real heap" where
  "up_alien = alien_up(2 := (alien_up 2)\<lparr>next := Some 1\<rparr>, 1 := (alien_up 1)\<lparr>next := None\<rparr>)"

text \<open>
  \<open>tenths\<close> holds three nodes whose durations are the doubles nearest to 0.1, 0.2 and
  0.3, linked in this order; \<open>tenths_back\<close> links the same nodes in the opposite order.
\<close>

definition tenths :: "binary64 heap" where
  "tenths = (\<lambda>a. \<lparr>title = [], genre = [], duration = (0, 0), next = None\<rparr>)
     (1 := \<lparr>title = ''Alien'', genre = ''Sci-Fi'', duration = (3602879701896397, - 55), next = Some 2\<rparr>,
      2 := \<lparr>title = ''Up'', genre = ''Animation'', duration = (3602879701896397, - 54), next = Some 3\<rparr>,
      3 := \<lparr>title = ''Heat'', genre = ''Crime'', duration = (5404319552844595, - 54), next = None\<rparr>)"

definition tenths_back :: "binary64 heap" where
  "tenths_back = tenths(3 := (tenths 3)\<lparr>next := Some 2\<rparr>, 2 := (tenths 2)\<lparr>next := Some 1\<rparr>,
     1 := (tenths 1)\<lparr>next := None\<rparr>)"

text \<open>\<open>up_up\<close> is a library that holds the title Up twice, at the addresses 1 and 2.\<close>

definition up_up :: "real heap" where
  "up_up = (\<lambda>a. blank)
     (1 := \<lparr>title = ''Up'', genre = ''Animation'', duration = 1.6, next = Some 2\<rparr>,
      2 := \<lparr>title = ''Up'', genre = ''Animation'', duration = 1.6, next = None\<rparr>)"

section \<open>Lists on the heap\<close>

lemma linked_None [simp]: "linked h None as = (as = [])"
  by (cases as) simp_all

lemma linked_Some: "linked h (Some a) as = (\<exists>bs. as = a # bs \<and> linked h (next (h a)) bs)"
  by (cases as) auto

lemma linked_update [simp]: "a \<notin> set as \<Longrightarrow> linked (h(a := v)) p as = linked h p as"
  by (induction as arbitrary: p) auto

lemma linked_fun: "linked h p as \<Longrightarrow> linked h p bs \<Longrightarrow> as = bs"
proof (induction as arbitrary: p bs)
  case Nil
  then show ?case by simp
next
  case (Cons a as)
  then show ?case by (cases bs) auto
qed

lemma linked_suffix: "linked h p (xs @ ys) \<Longrightarrow> linked h (if xs = [] then p else next (h (last xs))) ys"
  by (induction xs arbitrary: p) auto

lemma linked_split: "linked h p (xs @ y # ys) \<Longrightarrow> linked h (Some y) (y # ys)"
  by (induction xs arbitrary: p) auto

lemma linked_head_notin: assumes "linked h (next (h a)) as" shows "a \<notin> set as"
proof
  assume "a \<in> set as"
  then obtain xs ys where as: "as = xs @ a # ys" by (auto simp: in_set_conv_decomp)
  with assms have "linked h (Some a) (a # ys)" using linked_split by fastforce
  then have "linked h (next (h a)) ys" by simp
  with assms have "as = ys" by (rule linked_fun)
  with as show False by simp
qed

lemma linked_distinct: "linked h p as \<Longrightarrow> distinct as"
  by (induction as arbitrary: p) (auto dest: linked_head_notin)

lemma getCount_loop_linked:
  "linked h (next (h a)) as \<Longrightarrow> getCount_loop h a c = Some (c + int (length as))"
proof (induction as arbitrary: a c)
  case Nil
  then show ?case by (subst getCount_loop.simps) simp
next
  case (Cons b bs)
  then show ?case by (subst getCount_loop.simps) simp
qed

lemma getCount_linked: "linked h p as \<Longrightarrow> getCount h p = Some (int (length as))"
  by (cases as) (auto simp: getCount_def getCount_loop_linked)

lemma linked_update2:
  "a \<notin> set as \<Longrightarrow> b \<notin> set as \<Longrightarrow> linked (h(a := v, b := w)) p as = linked h p as"
  by simp

lemma linked_insert:
  "linked h p (xs @ zs) \<Longrightarrow> xs \<noteq> [] \<Longrightarrow> ins \<notin> set (xs @ zs) \<Longrightarrow>
   linked (h(last xs := (h (last xs))\<lparr>next := Some ins\<rparr>, ins := m\<lparr>next := next (h (last xs))\<rparr>))
     p (xs @ ins # zs)"
proof (induction xs arbitrary: p)
  case Nil
  then show ?case by simp
next
  case (Cons x xs)
  have d: "distinct ((x # xs) @ zs)" using Cons.prems(1) by (rule linked_distinct)
  show ?case
  proof (cases xs)
    case Nil
    have "linked (h(x := (h x)\<lparr>next := Some ins\<rparr>, ins := m\<lparr>next := next (h x)\<rparr>))
            p (x # ins # zs)"
      using Cons.prems d unfolding Nil by simp
    then show ?thesis unfolding Nil by (simp only: last_ConsL [OF refl] append_Cons append_Nil)
  next
    case (Cons x' xs')
    have l: "last (x # xs) = last xs" and ne: "x \<noteq> last xs" "x \<noteq> ins" "xs \<noteq> []"
      using d Cons.prems(3) unfolding Cons by auto
    have "linked h (next (h x)) (xs @ zs)" "p = Some x" "ins \<notin> set (xs @ zs)"
      using Cons.prems by simp_all
    with Cons.IH [of "next (h x)"] ne show ?thesis
      unfolding l by simp
  qed
qed

section \<open>insertMovie\<close>

lemma insertMovie_loop_here_None:
  "insertMovie_loop h list ins position None itr position =
     Some (Ret (Success, h(ins := (h ins)\<lparr>next := itr\<rparr>), if position = 0 then Some ins else list))"
  by (subst insertMovie_loop.simps) (simp add: Let_def)

lemma insertMovie_loop_here_Some:
  "insertMovie_loop h list ins position (Some p) itr position =
     Some (Ret (Success,
       h(p := (h p)\<lparr>next := Some ins\<rparr>,
         ins := ((h(p := (h p)\<lparr>next := Some ins\<rparr>)) ins)\<lparr>next := itr\<rparr>),
       if position = 0 then Some ins else list))"
  by (subst insertMovie_loop.simps) (simp add: Let_def)

lemma insertMovie_loop_step:
  "count \<noteq> position \<Longrightarrow> next (h y) = Some n \<Longrightarrow>
   insertMovie_loop h list ins position prev (Some y) count =
   insertMovie_loop h list ins position (Some y) (Some n) (count + 1)"
  by (subst insertMovie_loop.simps) simp

lemma insertMovie_loop_end:
  "count \<noteq> position \<Longrightarrow> next (h y) = None \<Longrightarrow>
   insertMovie_loop h list ins position prev (Some y) count = Some (Ret (ERANGE, h, list))"
  by (subst insertMovie_loop.simps) simp

lemma insertMovie_loop_at:
  "linked h (Some y) (y # ys @ z # zs) \<Longrightarrow> position = count + 1 + int (length ys) \<Longrightarrow>
   insertMovie_loop h list ins position prev (Some y) count =
     Some (Ret (Success,
       h(last (y # ys) := (h (last (y # ys)))\<lparr>next := Some ins\<rparr>,
         ins := ((h(last (y # ys) := (h (last (y # ys)))\<lparr>next := Some ins\<rparr>)) ins)\<lparr>next := Some z\<rparr>),
       if position = 0 then Some ins else list))"
proof (induction ys arbitrary: y prev count)
  case Nil
  then have "next (h y) = Some z" "count \<noteq> position" by simp_all
  then have "insertMovie_loop h list ins position prev (Some y) count =
     insertMovie_loop h list ins position (Some y) (Some z) position"
    using Nil.prems(2) by (simp add: insertMovie_loop_step)
  then show ?case by (simp only: insertMovie_loop_here_Some last_ConsL [OF refl])
next
  case (Cons y' ys')
  from Cons.prems have l: "linked h (Some y') (y' # ys' @ z # zs)" and n: "next (h y) = Some y'"
    by simp_all
  have p: "position = (count + 1) + 1 + int (length ys')" using Cons.prems by simp
  have "count \<noteq> position" using Cons.prems(2) by simp
  then have "insertMovie_loop h list ins position prev (Some y) count =
     insertMovie_loop h list ins position (Some y) (Some y') (count + 1)"
    using n by (rule insertMovie_loop_step)
  then show ?case
    using Cons.IH [OF l p, of "Some y"] by simp
qed

lemma insertMovie_loop_range:
  "linked h (Some y) (y # ys) \<Longrightarrow> position < count \<or> count + int (length (y # ys)) \<le> position \<Longrightarrow>
   insertMovie_loop h list ins position prev (Some y) count = Some (Ret (ERANGE, h, list))"
proof (induction ys arbitrary: y prev count)
  case Nil
  then show ?case by (intro insertMovie_loop_end) auto
next
  case (Cons y' ys')
  from Cons.prems have l: "linked h (Some y') (y' # ys')" and n: "next (h y) = Some y'"
    by simp_all
  have p: "position < count + 1 \<or> (count + 1) + int (length (y' # ys')) \<le> position"
    using Cons.prems by auto
  have "count \<noteq> position" using Cons.prems(2) by auto
  then have "insertMovie_loop h list ins position prev (Some y) count =
     insertMovie_loop h list ins position (Some y) (Some y') (count + 1)"
    using n by (rule insertMovie_loop_step)
  then show ?case
    using Cons.IH [OF l p, of "Some y"] by simp
qed

lemma insertMovie_front:
  "insertMovie h list (Some ins) 0 = Some (Ret (Success, h(ins := (h ins)\<lparr>next := list\<rparr>), Some ins))"
  by (simp add: insertMovie_def insertMovie_loop_here_None)

lemma insertMovie_inner:
  assumes "linked h list (xs @ z # zs)" "xs \<noteq> []" "position = int (length xs)"
  shows "insertMovie h list (Some ins) position =
     Some (Ret (Success,
       h(last xs := (h (last xs))\<lparr>next := Some ins\<rparr>,
         ins := ((h(last xs := (h (last xs))\<lparr>next := Some ins\<rparr>)) ins)\<lparr>next := Some z\<rparr>),
       list))"
proof -
  from assms(2) obtain y ys where xs: "xs = y # ys" by (cases xs) auto
  with assms(1) have l: "linked h (Some y) (y # ys @ z # zs)" and list: "list = Some y" by simp_all
  have p: "position = 0 + 1 + int (length ys)" using assms(3) xs by simp
  have nz: "position \<noteq> 0" using assms(3) xs by simp
  show ?thesis
    using insertMovie_loop_at [OF l p, of list ins None] nz
    by (simp add: insertMovie_def list xs)
qed

lemma insertMovie_ERANGE:
  assumes "linked h list as" "as \<noteq> []" "position < 0 \<or> int (length as) \<le> position"
  shows "insertMovie h list (Some ins) position = Some (Ret (ERANGE, h, list))"
proof -
  from assms(2) obtain y ys where as: "as = y # ys" by (cases as) auto
  with assms(1) have l: "linked h (Some y) (y # ys)" and list: "list = Some y" by simp_all
  show ?thesis
    using insertMovie_loop_range [OF l, of position 0 list ins None] assms(3)
    by (simp add: insertMovie_def list as)
qed

lemma insertMovie_empty_Crash:
  "position \<noteq> 0 \<Longrightarrow> insertMovie h None (Some ins) position = Some Crash"
  by (simp add: insertMovie_def, subst insertMovie_loop.simps, simp)


lemma movies_upd_next: "movies (h(a := (h a)\<lparr>next := v\<rparr>)) as = movies h as"
  by (simp add: movies_def)

lemma movies_upd_next2:
  "movies (h(a := (h a)\<lparr>next := v\<rparr>, b := (h b)\<lparr>next := w\<rparr>)) as = movies h as"
  by (simp add: movies_def)

lemma movies_append: "movies h (xs @ ys) = movies h xs @ movies h ys"
  by (simp add: movies_def)

lemma movies_Cons: "movies h (x # xs) = (title (h x), genre (h x), duration (h x)) # movies h xs"
  by (simp add: movies_def)

lemma movies_take: "movies h (take n xs) = take n (movies h xs)"
  by (simp add: movies_def take_map)

lemma movies_drop: "movies h (drop n xs) = drop n (movies h xs)"
  by (simp add: movies_def drop_map)

lemma insertMovie_success:
  assumes l: "linked h list as" and f: "ins \<notin> set as"
    and v: "0 \<le> position \<and> position < int (length as) \<or> as = [] \<and> position = 0"
  shows "\<exists>h' list'. insertMovie h list (Some ins) position = Some (Ret (Success, h', list'))
           \<and> linked h' list' (take (nat position) as @ ins # drop (nat position) as)
           \<and> (\<forall>bs. movies h' bs = movies h bs)"
proof (cases "position = 0")
  case True
  have "linked (h(ins := (h ins)\<lparr>next := list\<rparr>)) (Some ins) (ins # as)"
    using l f by simp
  then show ?thesis
    using True by (simp add: insertMovie_front movies_upd_next)
next
  case False
  define n where "n = nat position"
  have n: "0 < n" "n < length as" "position = int n" using v False by (auto simp: n_def)
  define xs where "xs = take n as"
  define z where "z = as ! n"
  define zs where "zs = drop (Suc n) as"
  have as: "as = xs @ z # zs" unfolding xs_def z_def zs_def using n(2) by (simp add: id_take_nth_drop)
  have xs: "xs \<noteq> []" "int (length xs) = position" using n by (auto simp: xs_def)
  have dz: "drop n as = z # zs" unfolding z_def zs_def using n(2) by (simp add: Cons_nth_drop_Suc)
  have nx: "next (h (last xs)) = Some z"
    using linked_suffix [of h list xs "z # zs"] l xs(1) unfolding as by simp
  have fi: "ins \<notin> set (xs @ z # zs)" using f as by simp
  have "linked (h(last xs := (h (last xs))\<lparr>next := Some ins\<rparr>,
          ins := ((h(last xs := (h (last xs))\<lparr>next := Some ins\<rparr>)) ins)\<lparr>next := next (h (last xs))\<rparr>))
          list (xs @ ins # z # zs)"
    using l xs(1) fi unfolding as by (rule linked_insert)
  moreover have "insertMovie h list (Some ins) position =
     Some (Ret (Success,
       h(last xs := (h (last xs))\<lparr>next := Some ins\<rparr>,
         ins := ((h(last xs := (h (last xs))\<lparr>next := Some ins\<rparr>)) ins)\<lparr>next := Some z\<rparr>),
       list))"
    using l xs unfolding as by (intro insertMovie_inner) simp_all
  moreover have "ins \<noteq> last xs" using fi xs(1) by auto
  ultimately show ?thesis
    unfolding nx n_def [symmetric] xs_def [symmetric] dz
    by (simp add: movies_upd_next2)
qed

text \<open>
  Claim C1, as amended. On a list of \<open>n\<close> nodes \<open>insertMovie\<close> succeeds at the positions
  \<open>0 \<le> position < n\<close>, and at position 0 of the empty list: the new node is then at index
  \<open>position\<close>, the movies before and after it keep their order and \<open>getCount\<close> grows by
  one. On a non-empty list it returns \<open>ERANGE\<close>, leaving heap and list as they were,
  exactly when \<open>position < 0\<close> or \<open>position \<ge> n\<close>; so position \<open>n\<close> itself, the
  append position, is refused.
\<close>

theorem insertMovie_positions:
  assumes "linked h list as" and "ins \<notin> set as"
  shows "((0 \<le> position \<and> position < int (length as)) \<or> (as = [] \<and> position = 0) \<longrightarrow>
           (case insertMovie h list (Some ins) position of
              Some (Ret (st, h', list')) \<Rightarrow>
                st = Success \<and>
                linked h' list' (take (nat position) as @ ins # drop (nat position) as) \<and>
                (take (nat position) as @ ins # drop (nat position) as) ! nat position = ins \<and>
                movies h' (take (nat position) as @ ins # drop (nat position) as) =
                  take (nat position) (movies h as) @
                  (title (h ins), genre (h ins), duration (h ins)) # drop (nat position) (movies h as) \<and>
                getCount h list = Some (int (length as)) \<and>
                getCount h' list' = Some (int (length as) + 1)
            | _ \<Rightarrow> False))
       \<and> (as \<noteq> [] \<longrightarrow>
            (insertMovie h list (Some ins) position = Some (Ret (ERANGE, h, list))) =
            (position < 0 \<or> int (length as) \<le> position))"
proof (intro conjI impI)
  assume v: "(0 \<le> position \<and> position < int (length as)) \<or> (as = [] \<and> position = 0)"
  let ?new = "take (nat position) as @ ins # drop (nat position) as"
  from insertMovie_success [OF assms v] obtain h' list' where
    r: "insertMovie h list (Some ins) position = Some (Ret (Success, h', list'))"
    and l: "linked h' list' ?new" and m: "\<forall>bs. movies h' bs = movies h bs"
    by blast
  have n: "nat position \<le> length as" using v by auto
  have 1: "?new ! nat position = ins" using n by (simp add: nth_append)
  have 2: "movies h' ?new = take (nat position) (movies h as) @
             (title (h ins), genre (h ins), duration (h ins)) # drop (nat position) (movies h as)"
  proof -
    have "movies h' ?new = movies h ?new" using m by simp
    then show ?thesis by (simp add: movies_append movies_Cons movies_take movies_drop)
  qed
  have 3: "getCount h' list' = Some (int (length as) + 1)"
    using getCount_linked [OF l] n by simp
  show "case insertMovie h list (Some ins) position of
          Some (Ret (st, h', list')) \<Rightarrow>
            st = Success \<and> linked h' list' ?new \<and> ?new ! nat position = ins \<and>
            movies h' ?new = take (nat position) (movies h as) @
              (title (h ins), genre (h ins), duration (h ins)) # drop (nat position) (movies h as) \<and>
            getCount h list = Some (int (length as)) \<and>
            getCount h' list' = Some (int (length as) + 1)
        | _ \<Rightarrow> False"
    using l 1 2 3 getCount_linked [OF assms(1)] by (simp add: r)
next
  assume ne: "as \<noteq> []"
  show "(insertMovie h list (Some ins) position = Some (Ret (ERANGE, h, list))) =
        (position < 0 \<or> int (length as) \<le> position)"
  proof (cases "position < 0 \<or> int (length as) \<le> position")
    case True
    then show ?thesis using insertMovie_ERANGE [OF assms(1) ne True] by simp
  next
    case False
    then have v: "(0 \<le> position \<and> position < int (length as)) \<or> (as = [] \<and> position = 0)" by auto
    from insertMovie_success [OF assms v] False show ?thesis by auto
  qed
qed

theorem insertMovie_positions_witness:
  "linked alien_up (Some 1) [1, 2] \<and> (3::addr) \<notin> set [1, 2] \<and>
   (case insertMovie alien_up (Some 1) (Some 3) 1 of
      Some (Ret (st, h', list')) \<Rightarrow>
        st = Success \<and> linked h' list' [1, 3, 2] \<and>
        movies h' [1, 3, 2] =
          [(''Alien'', ''Sci-Fi'', 1.5), (''Heat'', ''Crime'', 2.8), (''Up'', ''Animation'', 1.6)] \<and>
        getCount h' list' = Some 3
    | _ \<Rightarrow> False) \<and>
   insertMovie alien_up (Some 1) (Some 3) 2 = Some (Ret (ERANGE, alien_up, Some 1))"
proof -
  have l: "linked alien_up (Some 1) [1, 2]" and f: "(3::addr) \<notin> set [1, 2]"
    by (simp_all add: alien_up_def)
  have m: "take (nat 1) (movies alien_up [1, 2]) @
      (title (alien_up 3), genre (alien_up 3), duration (alien_up 3)) #
      drop (nat 1) (movies alien_up [1, 2]) =
      [(''Alien'', ''Sci-Fi'', 1.5), (''Heat'', ''Crime'', 2.8), (''Up'', ''Animation'', 1.6)]"
    by (simp add: movies_def alien_up_def)
  show ?thesis
    using insertMovie_positions [OF l f, of 1] insertMovie_positions [OF l f, of 2] l f
    unfolding m
    by (auto split: option.splits outcome.splits)
qed

text \<open>
  The claim as stated fails at \<open>position = Count(list)\<close>: on the two-node list Alien, Up
  the count is 2 and inserting the detached node at position 2 returns \<open>ERANGE\<close>.
\<close>

theorem insertMovie_at_count_counterexample:
  "getCount alien_up (Some 1) = Some 2 \<and>
   insertMovie alien_up (Some 1) (Some 3) 2 = Some (Ret (ERANGE, alien_up, Some 1))"
proof -
  have l: "linked alien_up (Some 1) [1, 2]" by (simp add: alien_up_def)
  show ?thesis
    using getCount_linked [OF l] insertMovie_ERANGE [OF l, of 2 3] by simp
qed

section \<open>appendMovie\<close>

lemma next_update_same: "next r = v \<Longrightarrow> r\<lparr>next := v\<rparr> = r"
  by (cases r) simp

lemma linked_last_next: "linked h p as \<Longrightarrow> as \<noteq> [] \<Longrightarrow> next (h (last as)) = None"
  using linked_suffix [of h p as "[]"] by simp

lemma linked_nth_next:
  "linked h p (xs @ z # zs) \<Longrightarrow> xs \<noteq> [] \<Longrightarrow> next (h (last xs)) = Some z"
  using linked_suffix [of h p xs "z # zs"] by simp

lemma appendMovie_loop_linked:
  "linked h (Some a) (a # as) \<Longrightarrow> appendMovie_loop h a = Some (last (a # as))"
proof (induction as arbitrary: a)
  case Nil
  then show ?case by (subst appendMovie_loop.simps) simp
next
  case (Cons b bs)
  then have "linked h (Some b) (b # bs)" "next (h a) = Some b" by simp_all
  with Cons.IH [of b] show ?case by (subst appendMovie_loop.simps) simp
qed

lemma appendMovie_empty:
  "appendMovie h None (Some m) = Some (Success, h(m := (h m)\<lparr>next := None\<rparr>), Some m)"
  by (simp add: appendMovie_def)

lemma appendMovie_nonempty:
  assumes "linked h list as" "as \<noteq> []"
  shows "appendMovie h list (Some m) =
     Some (Success,
       h(last as := (h (last as))\<lparr>next := Some m\<rparr>,
         m := ((h(last as := (h (last as))\<lparr>next := Some m\<rparr>)) m)\<lparr>next := None\<rparr>),
       list)"
proof -
  from assms obtain a bs where as: "as = a # bs" by (cases as) auto
  with assms(1) have l: "linked h (Some a) (a # bs)" and list: "list = Some a" by simp_all
  show ?thesis
    unfolding appendMovie_def list as
    by (simp only: appendMovie_loop_linked [OF l] option.case Let_def)
qed

lemma linked_append_node:
  assumes "linked h list as" "as \<noteq> []" "m \<notin> set as"
  shows "linked (h(last as := (h (last as))\<lparr>next := Some m\<rparr>, m := r\<lparr>next := None\<rparr>)) list (as @ [m])"
  using linked_insert [of h list as "[]" m r] assms linked_last_next [OF assms(1,2)] by simp

lemma appendMovie_success:
  assumes l: "linked h list as" and f: "m \<notin> set as"
  shows "\<exists>h'. appendMovie h list (Some m) = Some (Success, h', if as = [] then Some m else list)
           \<and> linked h' (if as = [] then Some m else list) (as @ [m])
           \<and> (\<forall>bs. movies h' bs = movies h bs)
           \<and> (\<forall>a. a \<notin> set as \<and> a \<noteq> m \<longrightarrow> h' a = h a)"
proof (cases "as = []")
  case True
  then have "list = None" using l by simp
  then show ?thesis using True by (simp add: appendMovie_empty movies_upd_next)
next
  case False
  have ne: "m \<noteq> last as" using f False by auto
  have "linked (h(last as := (h (last as))\<lparr>next := Some m\<rparr>, m := (h m)\<lparr>next := None\<rparr>)) list (as @ [m])"
    using l False f by (rule linked_append_node)
  then show ?thesis
    using False ne by (simp add: appendMovie_nonempty [OF l False] movies_upd_next2)
qed

text \<open>
  Claim C5, as amended. \<open>appendMovie\<close> and \<open>insertMovie\<close> at \<open>getCount\<close> agree on the
  empty list only: there both succeed and leave the same heap and head. On a non-empty
  list \<open>appendMovie\<close> succeeds and links the movie after the last node, while
  \<open>insertMovie\<close> at position \<open>getCount\<close> returns \<open>ERANGE\<close> and changes nothing.
\<close>

theorem appendMovie_vs_insertMovie:
  assumes "linked h list as" and "m \<notin> set as"
  shows "getCount h list = Some (int (length as)) \<and>
    (as = [] \<longrightarrow>
       appendMovie h list (Some m) = Some (Success, h(m := (h m)\<lparr>next := None\<rparr>), Some m) \<and>
       insertMovie h list (Some m) (int (length as)) =
         Some (Ret (Success, h(m := (h m)\<lparr>next := None\<rparr>), Some m))) \<and>
    (as \<noteq> [] \<longrightarrow>
       (case appendMovie h list (Some m) of
          Some (st, h', list') \<Rightarrow>
            st = Success \<and> list' = list \<and> linked h' list' (as @ [m]) \<and>
            movies h' (as @ [m]) = movies h as @ [(title (h m), genre (h m), duration (h m))]
        | None \<Rightarrow> False) \<and>
       insertMovie h list (Some m) (int (length as)) = Some (Ret (ERANGE, h, list)))"
proof (intro conjI impI)
  show "getCount h list = Some (int (length as))" using assms(1) by (rule getCount_linked)
next
  assume "as = []"
  then show "appendMovie h list (Some m) = Some (Success, h(m := (h m)\<lparr>next := None\<rparr>), Some m)"
    using assms(1) by (simp add: appendMovie_empty)
next
  assume "as = []"
  then show "insertMovie h list (Some m) (int (length as)) =
         Some (Ret (Success, h(m := (h m)\<lparr>next := None\<rparr>), Some m))"
    using assms(1) by (simp add: insertMovie_front)
next
  assume ne: "as \<noteq> []"
  from appendMovie_success [OF assms] ne obtain h' where
    r: "appendMovie h list (Some m) = Some (Success, h', list)"
    and l: "linked h' list (as @ [m])" and mv: "\<forall>bs. movies h' bs = movies h bs"
    by auto
  have "movies h' (as @ [m]) = movies h (as @ [m])" using mv by simp
  then have "movies h' (as @ [m]) = movies h as @ [(title (h m), genre (h m), duration (h m))]"
    by (simp add: movies_def)
  with l show "case appendMovie h list (Some m) of
          Some (st, h', list') \<Rightarrow>
            st = Success \<and> list' = list \<and> linked h' list' (as @ [m]) \<and>
            movies h' (as @ [m]) = movies h as @ [(title (h m), genre (h m), duration (h m))]
        | None \<Rightarrow> False"
    by (simp add: r)
next
  assume ne: "as \<noteq> []"
  show "insertMovie h list (Some m) (int (length as)) = Some (Ret (ERANGE, h, list))"
    using assms(1) ne by (rule insertMovie_ERANGE) simp
qed

theorem appendMovie_vs_insertMovie_witness:
  "linked alien_up (Some 1) [1, 2] \<and> (3::addr) \<notin> set [1, 2] \<and>
   (case appendMovie alien_up (Some 1) (Some 3) of
      Some (st, h', list') \<Rightarrow> st = Success \<and> list' = Some 1 \<and> linked h' list' [1, 2, 3]
    | None \<Rightarrow> False) \<and>
   insertMovie alien_up (Some 1) (Some 3) 2 = Some (Ret (ERANGE, alien_up, Some 1)) \<and>
   linked alien_up None [] \<and> (3::addr) \<notin> set [] \<and>
   appendMovie alien_up None (Some 3) =
     Some (Success, alien_up(3 := (alien_up 3)\<lparr>next := None\<rparr>), Some 3) \<and>
   insertMovie alien_up None (Some 3) 0 =
     Some (Ret (Success, alien_up(3 := (alien_up 3)\<lparr>next := None\<rparr>), Some 3))"
proof -
  have l: "linked alien_up (Some 1) [1, 2]" and f: "(3::addr) \<notin> set [1, 2]"
    by (simp_all add: alien_up_def)
  have l0: "linked alien_up None []" and f0: "(3::addr) \<notin> set []" by simp_all
  show ?thesis
    using appendMovie_vs_insertMovie [OF l f] appendMovie_vs_insertMovie [OF l0 f0] l f
    by (auto split: option.splits)
qed

text \<open>
  The claim as stated fails on the two-node list Alien, Up: appending the detached node
  succeeds, inserting it at position 2, the count, returns \<open>ERANGE\<close>.
\<close>

theorem appendMovie_vs_insertMovie_counterexample:
  "getCount alien_up (Some 1) = Some 2 \<and>
   map_option fst (appendMovie alien_up (Some 1) (Some 3)) = Some Success \<and>
   insertMovie alien_up (Some 1) (Some 3) 2 = Some (Ret (ERANGE, alien_up, Some 1))"
proof -
  have l: "linked alien_up (Some 1) [1, 2]" by (simp add: alien_up_def)
  show ?thesis
    using getCount_linked [OF l] insertMovie_ERANGE [OF l, of 2 3] appendMovie_nonempty [OF l, of 3]
    by simp
qed

section \<open>removeMovie\<close>

lemma removeMovie_loop_found:
  "linked h itr (ys @ m # zs) \<Longrightarrow> m \<notin> set ys \<Longrightarrow>
   removeMovie_loop h list m prev itr =
     Some (Ret (h(last (prev # ys) := (h (last (prev # ys)))\<lparr>next := next (h m)\<rparr>,
                  m := ((h(last (prev # ys) := (h (last (prev # ys)))\<lparr>next := next (h m)\<rparr>)) m)\<lparr>next := None\<rparr>),
                list, Some m))"
proof (induction ys arbitrary: prev itr)
  case Nil
  then have "itr = Some m" by simp
  then show ?case
    by (subst removeMovie_loop.simps) (simp add: Let_def)
next
  case (Cons y ys)
  then have i: "itr = Some y" and ne: "y \<noteq> m" and l: "linked h (next (h y)) (ys @ m # zs)"
    and f: "m \<notin> set ys" by auto
  from l obtain n where n: "next (h y) = Some n" by (cases "ys") auto
  have "removeMovie_loop h list m prev itr = removeMovie_loop h list m y (next (h y))"
    unfolding i n using ne n by (subst removeMovie_loop.simps) simp
  also have "\<dots> = Some (Ret (h(last (y # ys) := (h (last (y # ys)))\<lparr>next := next (h m)\<rparr>,
                  m := ((h(last (y # ys) := (h (last (y # ys)))\<lparr>next := next (h m)\<rparr>)) m)\<lparr>next := None\<rparr>),
                list, Some m))"
    using l f by (rule Cons.IH)
  finally have r: "removeMovie_loop h list m prev itr =
     Some (Ret (h(last (y # ys) := (h (last (y # ys)))\<lparr>next := next (h m)\<rparr>,
                  m := ((h(last (y # ys) := (h (last (y # ys)))\<lparr>next := next (h m)\<rparr>)) m)\<lparr>next := None\<rparr>),
                list, Some m))" .
  have e: "last (prev # y # ys) = last (y # ys)" by simp
  show ?case unfolding e by (rule r)
qed

lemma removeMovie_loop_absent:
  "linked h (Some y) (y # ys) \<Longrightarrow> m \<notin> set (y # ys) \<Longrightarrow>
   removeMovie_loop h list m prev (Some y) = Some (Ret (h, list, None))"
proof (induction ys arbitrary: prev y)
  case Nil
  then show ?case by (subst removeMovie_loop.simps) simp
next
  case (Cons y' ys)
  then have "linked h (Some y') (y' # ys)" "m \<notin> set (y' # ys)" "next (h y) = Some y'" "y \<noteq> m"
    by auto
  with Cons.IH [of y' y] show ?case by (subst removeMovie_loop.simps) simp
qed

lemma removeMovie_head:
  "removeMovie h (Some m) (Some m) = Some (Ret (h, next (h m), Some m))"
  by (simp add: removeMovie_def)

lemma removeMovie_inner:
  assumes "linked h list (xs @ m # zs)" "xs \<noteq> []" "m \<notin> set xs"
  shows "removeMovie h list (Some m) =
     Some (Ret (h(last xs := (h (last xs))\<lparr>next := next (h m)\<rparr>,
                  m := ((h(last xs := (h (last xs))\<lparr>next := next (h m)\<rparr>)) m)\<lparr>next := None\<rparr>),
                list, Some m))"
proof -
  from assms(2) obtain x ys where xs: "xs = x # ys" by (cases xs) auto
  with assms have list: "list = Some x" and l: "linked h (next (h x)) (ys @ m # zs)"
    and f: "m \<notin> set ys" and ne: "m \<noteq> x" by auto
  show ?thesis
    using removeMovie_loop_found [OF l f, of list x] ne
    by (simp add: removeMovie_def list xs)
qed

lemma linked_unlink:
  "linked h p (xs @ m # zs) \<Longrightarrow> xs \<noteq> [] \<Longrightarrow>
   linked (h(last xs := (h (last xs))\<lparr>next := next (h m)\<rparr>, m := r)) p (xs @ zs)"
proof (induction xs arbitrary: p)
  case Nil
  then show ?case by simp
next
  case (Cons x xs)
  have d: "distinct ((x # xs) @ m # zs)" using Cons.prems(1) by (rule linked_distinct)
  show ?case
  proof (cases xs)
    case Nil
    have "linked (h(x := (h x)\<lparr>next := next (h m)\<rparr>, m := r)) p (x # zs)"
      using Cons.prems d unfolding Nil by simp
    then show ?thesis unfolding Nil by (simp only: last_ConsL [OF refl] append_Cons append_Nil)
  next
    case (Cons x' xs')
    have l: "last (x # xs) = last xs" and ne: "x \<noteq> last xs" "x \<noteq> m" "xs \<noteq> []"
      using d unfolding Cons by auto
    have "linked h (next (h x)) (xs @ m # zs)" "p = Some x"
      using Cons.prems by simp_all
    with Cons.IH [of "next (h x)"] ne show ?thesis
      unfolding l by simp
  qed
qed

lemma removeMovie_success:
  assumes l: "linked h list as" and m: "m \<in> set as"
  shows "\<exists>h' list'. removeMovie h list (Some m) = Some (Ret (h', list', Some m))
           \<and> linked h' list' (remove1 m as)
           \<and> (\<forall>bs. movies h' bs = movies h bs)
           \<and> (\<forall>a. a \<notin> set as \<longrightarrow> h' a = h a)"
proof -
  from m obtain xs zs where as: "as = xs @ m # zs" and f: "m \<notin> set xs"
    using split_list_first by fastforce
  have r1: "remove1 m as = xs @ zs" using f by (simp add: as remove1_append)
  show ?thesis
  proof (cases "xs = []")
    case True
    with l as have "list = Some m" "linked h (next (h m)) zs" by simp_all
    then show ?thesis using True r1 by (simp add: removeMovie_head)
  next
    case False
    have la: "last xs \<in> set as" using False by (simp add: as)
    have ne: "m \<noteq> last xs" using f False by auto
    define h' where "h' = h(last xs := (h (last xs))\<lparr>next := next (h m)\<rparr>, m := (h m)\<lparr>next := None\<rparr>)"
    have 1: "linked h' list (remove1 m as)"
      unfolding h'_def r1 using l False unfolding as by (rule linked_unlink)
    have 2: "removeMovie h list (Some m) = Some (Ret (h', list, Some m))"
      unfolding h'_def using ne by (simp add: removeMovie_inner [OF l [unfolded as] False f])
    have 3: "\<forall>bs. movies h' bs = movies h bs"
      unfolding h'_def by (simp add: movies_upd_next2)
    have 4: "\<forall>a. a \<notin> set as \<longrightarrow> h' a = h a"
      unfolding h'_def using la m by auto
    from 1 2 3 4 show ?thesis by blast
  qed
qed

text \<open>
  Claim C6, as amended. Removing the node at index \<open>p\<close> and inserting the returned node
  at position \<open>p\<close> again restores the heap and the head pointer exactly, provided the
  node is not the last one of a list of two or more nodes.
\<close>

theorem removeMovie_insertMovie_roundtrip:
  assumes "linked h list as" and "p < length as" and "Suc p < length as \<or> length as = 1"
  shows "seq (removeMovie h list (Some (as ! p)))
           (\<lambda>(h1, list1, removed). insertMovie h1 list1 removed (int p)) =
         Some (Ret (Success, h, list))"
proof (cases p)
  case 0
  from assms(2) obtain m zs where as: "as = m # zs" by (cases as) auto
  with assms(1) have list: "list = Some m" by simp
  have "h(m := (h m)\<lparr>next := next (h m)\<rparr>) = h" by (simp add: next_update_same)
  then show ?thesis
    by (simp add: 0 as list removeMovie_head seq_def insertMovie_front)
next
  case (Suc q)
  with assms(2,3) have n: "Suc p < length as" "0 < p" by auto
  define xs where "xs = take p as"
  define m where "m = as ! p"
  define z where "z = as ! Suc p"
  define zs where "zs = drop (Suc (Suc p)) as"
  have as: "as = xs @ m # z # zs"
    unfolding xs_def m_def z_def zs_def using n(1)
    by (metis Cons_nth_drop_Suc Suc_lessD append_take_drop_id)
  have xs: "xs \<noteq> []" "int (length xs) = int p" using n by (auto simp: xs_def)
  have d: "distinct (xs @ m # z # zs)" using assms(1) unfolding as by (rule linked_distinct)
  then have f: "m \<notin> set xs" and ne: "m \<noteq> last xs" using xs(1) by auto
  have l: "linked h list (xs @ m # z # zs)" using assms(1) unfolding as .
  have nm: "next (h m) = Some z" using linked_split [OF l] by simp
  have nl: "next (h (last xs)) = Some m" using l xs(1) by (rule linked_nth_next)
  define h1 where "h1 = h(last xs := (h (last xs))\<lparr>next := next (h m)\<rparr>, m := (h m)\<lparr>next := None\<rparr>)"
  have r: "removeMovie h list (Some m) = Some (Ret (h1, list, Some m))"
    unfolding h1_def using ne by (simp add: removeMovie_inner [OF l xs(1) f])
  have l1: "linked h1 list (xs @ z # zs)"
    unfolding h1_def using l xs(1) by (rule linked_unlink)
  have i: "insertMovie h1 list (Some m) (int p) =
     Some (Ret (Success,
       h1(last xs := (h1 (last xs))\<lparr>next := Some m\<rparr>,
         m := ((h1(last xs := (h1 (last xs))\<lparr>next := Some m\<rparr>)) m)\<lparr>next := Some z\<rparr>),
       list))"
    using l1 xs(1) xs(2) [symmetric] by (rule insertMovie_inner)
  have e: "h1(last xs := (h1 (last xs))\<lparr>next := Some m\<rparr>,
         m := ((h1(last xs := (h1 (last xs))\<lparr>next := Some m\<rparr>)) m)\<lparr>next := Some z\<rparr>) = h"
  proof (rule ext)
    fix a
    show "(h1(last xs := (h1 (last xs))\<lparr>next := Some m\<rparr>,
         m := ((h1(last xs := (h1 (last xs))\<lparr>next := Some m\<rparr>)) m)\<lparr>next := Some z\<rparr>)) a = h a"
      using ne nm nl by (simp add: h1_def next_update_same)
  qed
  show ?thesis
    unfolding m_def [symmetric]
    by (simp only: r seq_def option.case outcome.case prod.case i e)
qed

theorem removeMovie_insertMovie_roundtrip_witness:
  "linked alien_up (Some 1) [1, 2] \<and> (0::nat) < length [1, 2 :: addr] \<and>
   seq (removeMovie alien_up (Some 1) (Some 1))
     (\<lambda>(h1, list1, removed). insertMovie h1 list1 removed 0) =
   Some (Ret (Success, alien_up, Some 1)) \<and>
   linked three (Some 1) [1, 2, 3] \<and> Suc 1 < length [1, 2, 3 :: addr] \<and>
   seq (removeMovie three (Some 1) (Some 2))
     (\<lambda>(h1, list1, removed). insertMovie h1 list1 removed 1) =
   Some (Ret (Success, three, Some 1))"
proof -
  have l: "linked alien_up (Some 1) [1, 2]" by (simp add: alien_up_def)
  have l3: "linked three (Some 1) [1, 2, 3]" by (simp add: three_def alien_up_def)
  have a: "seq (removeMovie alien_up (Some 1) (Some 1))
     (\<lambda>(h1, list1, removed). insertMovie h1 list1 removed 0) =
   Some (Ret (Success, alien_up, Some 1))"
    using removeMovie_insertMovie_roundtrip [OF l, of 0] by simp
  have b: "seq (removeMovie three (Some 1) (Some 2))
     (\<lambda>(h1, list1, removed). insertMovie h1 list1 removed 1) =
   Some (Ret (Success, three, Some 1))"
    using removeMovie_insertMovie_roundtrip [OF l3, of 1] by simp
  from l l3 a b show ?thesis by simp
qed

text \<open>
  The claim as stated fails for the last node: on the list Alien, Up, removing Up (index
  1) leaves a one-node list, on which position 1 is refused with \<open>ERANGE\<close>; the list
  stays Alien.
\<close>

theorem removeMovie_insertMovie_last_counterexample:
  "linked alien_up (Some 1) [1, 2] \<and>
   seq (removeMovie alien_up (Some 1) (Some 2))
     (\<lambda>(h1, list1, removed). insertMovie h1 list1 removed 1) =
   Some (Ret (ERANGE, alien_up(1 := (alien_up 1)\<lparr>next := None\<rparr>), Some 1)) \<and>
   linked (alien_up(1 := (alien_up 1)\<lparr>next := None\<rparr>)) (Some 1) [1]"
proof -
  have l: "linked alien_up (Some 1) ([1] @ 2 # [])" by (simp add: alien_up_def)
  define h1 where "h1 = alien_up(1 := (alien_up 1)\<lparr>next := None\<rparr>)"
  have n: "next (alien_up 2) = None" by (simp add: alien_up_def)
  have e: "alien_up(last [1] := (alien_up (last [1]))\<lparr>next := next (alien_up 2)\<rparr>,
      2 := ((alien_up(last [1] := (alien_up (last [1]))\<lparr>next := next (alien_up 2)\<rparr>)) 2)\<lparr>next := None\<rparr>) = h1"
    by (rule ext) (simp add: h1_def n next_update_same)
  have r: "removeMovie alien_up (Some 1) (Some 2) = Some (Ret (h1, Some 1, Some 2))"
    using removeMovie_inner [OF l] unfolding e by simp
  have l1: "linked h1 (Some 1) [1]" by (simp add: h1_def)
  have i: "insertMovie h1 (Some 1) (Some 2) 1 = Some (Ret (ERANGE, h1, Some 1))"
    using l1 by (rule insertMovie_ERANGE) simp_all
  have l0: "linked alien_up (Some 1) [1, 2]" using l by simp
  show ?thesis
    unfolding h1_def [symmetric]
    by (simp only: l0 l1 r i seq_def option.case outcome.case prod.case simp_thms)
qed

text \<open>
  Claim C9 on the code. Removing the head of the list Alien, Up returns node 1 with the
  heap untouched: the node's \<open>next\<close> still points to node 2. Only the loop branch, for a
  node further down, clears the link: removing node 2 from Alien, Up, Heat returns it with
  \<open>next\<close> cleared.
\<close>

theorem removeMovie_head_keeps_next:
  "linked alien_up (Some 1) [1, 2] \<and>
   removeMovie alien_up (Some 1) (Some 1) = Some (Ret (alien_up, Some 2, Some 1)) \<and>
   next (alien_up 1) = Some 2 \<and>
   linked three (Some 1) [1, 2, 3] \<and>
   removeMovie three (Some 1) (Some 2) =
     Some (Ret (three(1 := (three 1)\<lparr>next := Some 3\<rparr>, 2 := (three 2)\<lparr>next := None\<rparr>),
                Some 1, Some 2)) \<and>
   next ((three(1 := (three 1)\<lparr>next := Some 3\<rparr>, 2 := (three 2)\<lparr>next := None\<rparr>)) 2) = None"
proof -
  have l: "linked alien_up (Some 1) [1, 2]" by (simp add: alien_up_def)
  have n: "next (alien_up 1) = Some 2" by (simp add: alien_up_def)
  have a: "removeMovie alien_up (Some 1) (Some 1) = Some (Ret (alien_up, Some 2, Some 1))"
    unfolding removeMovie_head n ..
  have l3: "linked three (Some 1) ([1] @ 2 # [3])" by (simp add: three_def alien_up_def)
  have n3: "next (three 2) = Some 3" by (simp add: three_def)
  have b: "removeMovie three (Some 1) (Some 2) =
     Some (Ret (three(1 := (three 1)\<lparr>next := Some 3\<rparr>, 2 := (three 2)\<lparr>next := None\<rparr>),
                Some 1, Some 2))"
    using removeMovie_inner [OF l3] unfolding n3 by simp
  from l n a l3 b show ?thesis by simp
qed

section \<open>searchByTitle and getNodePosition\<close>

lemma searchByTitle_loop_linked:
  "linked h (Some a) (a # as) \<Longrightarrow>
   searchByTitle_loop h a t = Some (find (\<lambda>x. title (h x) = t) (a # as))"
proof (induction as arbitrary: a)
  case Nil
  then show ?case by (subst searchByTitle_loop.simps) simp
next
  case (Cons b bs)
  then have "linked h (Some b) (b # bs)" "next (h a) = Some b" by simp_all
  with Cons.IH [of b] show ?case by (subst searchByTitle_loop.simps) simp
qed

lemma searchByTitle_linked:
  assumes that: "linked h p as"
  shows "searchByTitle h p t = Some (find (\<lambda>x. title (h x) = t) as)"
proof (cases as)
  case Nil
  then show ?thesis using that by (simp add: searchByTitle_def)
next
  case (Cons a bs)
  with that have p: "p = Some a" and l: "linked h (Some a) (a # bs)" by simp_all
  show ?thesis
    unfolding Cons p searchByTitle_def by (simp only: option.case searchByTitle_loop_linked [OF l])
qed

lemma getNodePosition_loop_linked:
  "linked h (Some a) (a # as) \<Longrightarrow>
   getNodePosition_loop h a t index =
     Some (if \<exists>x \<in> set (a # as). title (h x) = t then index else - 1)"
proof (induction as arbitrary: a)
  case Nil
  then show ?case by (subst getNodePosition_loop.simps) simp
next
  case (Cons b bs)
  then have "linked h (Some b) (b # bs)" "next (h a) = Some b" by simp_all
  with Cons.IH [of b] show ?case by (subst getNodePosition_loop.simps) simp
qed

lemma getNodePosition_linked:
  assumes that: "linked h p as"
  shows "getNodePosition h p t = Some (if \<exists>x \<in> set as. title (h x) = t then 0 else - 1)"
proof (cases as)
  case Nil
  then show ?thesis using that by (simp add: getNodePosition_def)
next
  case (Cons a bs)
  with that have p: "p = Some a" and l: "linked h (Some a) (a # bs)" by simp_all
  show ?thesis
    unfolding Cons p getNodePosition_def by (simp only: option.case getNodePosition_loop_linked [OF l])
qed

text \<open>
  Claim C4 on the code. \<open>getNodePosition\<close> never advances \<open>index\<close>, so it returns 0 for
  every title that occurs in the list, wherever it occurs: on the list Alien, Up the first
  node titled Up is node 2, at index 1, and the function returns 0.
\<close>

theorem getNodePosition_second_is_0:
  "linked alien_up (Some 1) [1, 2] \<and>
   find (\<lambda>a. title (alien_up a) = ''Up'') [1, 2] = Some 2 \<and>
   getNodePosition alien_up (Some 1) ''Up'' = Some 0"
proof -
  have l: "linked alien_up (Some 1) [1, 2]" by (simp add: alien_up_def)
  have t: "title (alien_up 1) = ''Alien''" "title (alien_up 2) = ''Up''" by (simp_all add: alien_up_def)
  have g: "getNodePosition alien_up (Some 1) ''Up'' = Some 0"
    unfolding getNodePosition_linked [OF l] using t by simp
  have f: "find (\<lambda>a. title (alien_up a) = ''Up'') [1, 2] = Some 2" using t by simp
  from l f g show ?thesis by (simp only: simp_thms)
qed

section \<open>computeDuration\<close>

lemma computeDuration_loop_linked:
  "linked h (Some a) (a # as) \<Longrightarrow>
   computeDuration_loop add h a d = Some (foldl add d (map (\<lambda>x. duration (h x)) (a # as)))"
proof (induction as arbitrary: a d)
  case Nil
  then show ?case by (subst computeDuration_loop.simps) simp
next
  case (Cons b bs)
  then have "linked h (Some b) (b # bs)" "next (h a) = Some b" by simp_all
  with Cons.IH [of b] show ?case by (subst computeDuration_loop.simps) simp
qed

lemma computeDuration_linked:
  assumes that: "linked h p as"
  shows "computeDuration add zero h p = Some (foldl add zero (map (\<lambda>x. duration (h x)) as))"
proof (cases as)
  case Nil
  then show ?thesis using that by (simp add: computeDuration_def)
next
  case (Cons a bs)
  with that have p: "p = Some a" and l: "linked h (Some a) (a # bs)" by simp_all
  show ?thesis
    unfolding Cons p computeDuration_def by (simp only: option.case computeDuration_loop_linked [OF l])
qed

lemma foldl_plus_sum_list: "foldl (+) (d::'a::comm_monoid_add) xs = d + sum_list xs"
  by (induction xs arbitrary: d) (simp_all add: add.assoc)

text \<open>
  Claim C7, as amended. On a well-formed list \<open>computeDuration\<close> returns the durations
  added head to tail onto the initial zero, with whatever addition the program uses, the
  addition of doubles included. For an addition that is associative and commutative with
  unit zero (exact arithmetic) this is the sum of the durations, and it is the same for
  every order in which the same nodes are linked; the addition of doubles rounds and is
  not such an addition. On the empty list the function returns the zero: its \<open>EINVAL\<close>
  status is local and is dropped.
\<close>

theorem computeDuration_sum:
  fixes h :: "'e heap" and k k' :: "('d::comm_monoid_add) heap"
  shows "computeDuration add zero h None = Some zero \<and>
    (linked h list as \<longrightarrow>
       computeDuration add zero h list = Some (foldl add zero (map (\<lambda>a. duration (h a)) as))) \<and>
    (linked k klist ks \<longrightarrow>
       computeDuration (+) 0 k klist = Some (sum_list (map (\<lambda>a. duration (k a)) ks)) \<and>
       (linked k' klist' bs \<and> set bs = set ks \<and> (\<forall>a \<in> set ks. duration (k' a) = duration (k a)) \<longrightarrow>
          computeDuration (+) 0 k' klist' = computeDuration (+) 0 k klist))"
proof (intro conjI impI)
  show "computeDuration add zero h None = Some zero" by (simp add: computeDuration_def)
next
  assume "linked h list as"
  then show "computeDuration add zero h list = Some (foldl add zero (map (\<lambda>a. duration (h a)) as))"
    by (rule computeDuration_linked)
next
  assume l: "linked k klist ks"
  show "computeDuration (+) 0 k klist = Some (sum_list (map (\<lambda>a. duration (k a)) ks))"
    by (simp add: computeDuration_linked [OF l] foldl_plus_sum_list)
next
  assume l: "linked k klist ks"
  assume b: "linked k' klist' bs \<and> set bs = set ks \<and> (\<forall>a \<in> set ks. duration (k' a) = duration (k a))"
  have s: "computeDuration (+) 0 k klist = Some (sum_list (map (\<lambda>a. duration (k a)) ks))"
    by (simp add: computeDuration_linked [OF l] foldl_plus_sum_list)
  have "distinct ks" "distinct bs" using l b by (auto dest: linked_distinct)
  then have "sum_list (map (\<lambda>a. duration (k' a)) bs) = sum (\<lambda>a. duration (k' a)) (set bs)"
    and "sum_list (map (\<lambda>a. duration (k a)) ks) = sum (\<lambda>a. duration (k a)) (set ks)"
    by (simp_all add: sum_list_distinct_conv_sum_set)
  then have "sum_list (map (\<lambda>a. duration (k' a)) bs) = sum_list (map (\<lambda>a. duration (k a)) ks)"
    using b by simp
  moreover have "computeDuration (+) 0 k' klist' = Some (sum_list (map (\<lambda>a. duration (k' a)) bs))"
    using b computeDuration_linked [of k' klist' bs "(+)" 0] by (simp add: foldl_plus_sum_list)
  ultimately show "computeDuration (+) 0 k' klist' = computeDuration (+) 0 k klist"
    using s by simp
qed

theorem computeDuration_sum_witness:
  "linked alien_up (Some 1) [1, 2] \<and> linked up_alien (Some 2) [2, 1] \<and>
   set [2, 1 :: addr] = set [1, 2] \<and>
   duration (up_alien 1) = duration (alien_up 1) \<and>
   duration (up_alien 2) = duration (alien_up 2) \<and>
   computeDuration (\<lambda>x y. x + y) 0 alien_up (Some 1) = Some (0 + 1.5 + 1.6) \<and>
   computeDuration (+) 0 alien_up (Some 1) = Some 3.1 \<and>
   computeDuration (+) 0 up_alien (Some 2) = Some 3.1"
proof -
  have l: "linked alien_up (Some 1) [1, 2]" by (simp add: alien_up_def)
  have l': "linked up_alien (Some 2) [2, 1]" by (simp add: up_alien_def)
  have s: "set [2, 1 :: addr] = set [1, 2]" by auto
  have d: "\<forall>a \<in> set [1, 2]. duration (up_alien a) = duration (alien_up a)"
    by (simp add: up_alien_def)
  have v: "sum_list (map (\<lambda>a. duration (alien_up a)) [1, 2]) = 3.1"
    by (simp add: alien_up_def)
  have f: "foldl (\<lambda>x y. x + y) 0 (map (\<lambda>a. duration (alien_up a)) [1, 2]) = 0 + 1.5 + 1.6"
    by (simp add: alien_up_def)
  note T = computeDuration_sum [where h = alien_up and list = "Some 1" and as = "[1, 2]"
      and add = "\<lambda>x y. x + y" and zero = 0
      and k = alien_up and klist = "Some 1" and ks = "[1, 2]"
      and k' = up_alien and klist' = "Some 2" and bs = "[2, 1]"]
  have c: "computeDuration (\<lambda>x y. x + y) 0 alien_up (Some 1) = Some (0 + 1.5 + 1.6)"
    using T l unfolding f by blast
  have a: "computeDuration (+) 0 alien_up (Some 1) = Some 3.1"
    using T l unfolding v by blast
  have "computeDuration (+) 0 up_alien (Some 2) = computeDuration (+) 0 alien_up (Some 1)"
    using T l l' s d by blast
  then have b: "computeDuration (+) 0 up_alien (Some 2) = Some 3.1"
    unfolding a .
  have d': "duration (up_alien 1) = duration (alien_up 1)" "duration (up_alien 2) = duration (alien_up 2)"
    using d by simp_all
  from l l' s d' c a b show ?thesis by (simp only: simp_thms)
qed

text \<open>
  \<open>binary64_add\<close> is commutative, and it is the exact sum whenever that fits in 53 bits;
  otherwise it rounds.
\<close>

lemma excess_small: "n < 2 ^ 53 \<Longrightarrow> excess n = 0"
  by simp

lemma excess_step: "\<not> n < 2 ^ 53 \<Longrightarrow> excess n = Suc (excess (n div 2))"
  by simp

declare excess.simps [simp del]

lemma excess_numeral [simp]:
  "excess (numeral v) = (if (numeral v :: nat) < 2 ^ 53 then 0 else Suc (excess (numeral v div 2)))"
  by (rule excess.simps)

lemma binary64_value_aligned:
  "binary64_value (m1 * 2 ^ nat (e1 - min e1 e2) + m2 * 2 ^ nat (e2 - min e1 e2), min e1 e2) =
   binary64_value (m1, e1) + binary64_value (m2, e2)"
proof -
  have p: "\<And>k e :: int. e \<le> k \<Longrightarrow> (2::real) ^ nat (k - e) * 2 powr of_int e = 2 powr of_int k"
  proof -
    fix k e :: int assume "e \<le> k"
    then have "(2::real) ^ nat (k - e) = 2 powr of_int (k - e)"
      by (simp add: powr_realpow [symmetric])
    then show "(2::real) ^ nat (k - e) * 2 powr of_int e = 2 powr of_int k"
      by (simp add: powr_add [symmetric])
  qed
  have "min e1 e2 \<le> e1" "min e1 e2 \<le> e2" by simp_all
  from p [OF this(1)] p [OF this(2)] show ?thesis
    by (simp add: binary64_value_def algebra_simps)
qed

lemma round53_exact: "\<bar>m\<bar> < 2 ^ 53 \<Longrightarrow> round53 (m, e) = (m, e)"
proof -
  assume "\<bar>m\<bar> < 2 ^ 53"
  then have "nat \<bar>m\<bar> < 2 ^ 53" by (simp add: nat_less_iff)
  then have "excess (nat \<bar>m\<bar>) = 0" by (rule excess_small)
  then show ?thesis by (simp add: round53_def)
qed

lemma binary64_add_exact:
  "\<bar>m1 * 2 ^ nat (e1 - min e1 e2) + m2 * 2 ^ nat (e2 - min e1 e2)\<bar> < 2 ^ 53 \<Longrightarrow>
   binary64_value (binary64_add (m1, e1) (m2, e2)) = binary64_value (m1, e1) + binary64_value (m2, e2)"
  by (simp add: binary64_add_def round53_exact binary64_value_aligned)

lemma binary64_add_commute: "binary64_add x y = binary64_add y x"
  by (cases x, cases y) (simp add: binary64_add_def add.commute min.commute)

text \<open>
  The claim as stated fails in both halves. On an empty list the function does not fail:
  it returns 0. And the total is not the sum of the durations in any order: with the
  durations 0.1, 0.2 and 0.3 the list in this order gives 0.6000000000000001, the same
  nodes linked in the opposite order give 0.6, under the addition of doubles.
\<close>

theorem computeDuration_empty_and_order_counterexample:
  "computeDuration (+) 0 alien_up None = Some 0 \<and>
   computeDuration binary64_add (0, 0) tenths None = Some (0, 0) \<and>
   linked tenths (Some 1) [1, 2, 3] \<and> linked tenths_back (Some 3) [3, 2, 1] \<and>
   duration (tenths_back 1) = duration (tenths 1) \<and>
   duration (tenths_back 2) = duration (tenths 2) \<and>
   duration (tenths_back 3) = duration (tenths 3) \<and>
   computeDuration binary64_add (0, 0) tenths (Some 1) = Some (5404319552844596, - 53) \<and>
   computeDuration binary64_add (0, 0) tenths_back (Some 3) = Some (5404319552844595, - 53) \<and>
   binary64_value (5404319552844596, - 53) \<noteq> binary64_value (5404319552844595, - 53)"
proof -
  have e: "computeDuration (+) 0 alien_up None = Some (0 :: real)"
    "computeDuration binary64_add (0, 0) tenths None = Some (0, 0)"
    by (simp_all add: computeDuration_def)
  have l: "linked tenths (Some 1) [1, 2, 3]" by (simp add: tenths_def)
  have l': "linked tenths_back (Some 3) [3, 2, 1]" by (simp add: tenths_back_def)
  have d: "duration (tenths 1) = (3602879701896397, - 55)"
    "duration (tenths 2) = (3602879701896397, - 54)"
    "duration (tenths 3) = (5404319552844595, - 54)"
    by (simp_all add: tenths_def)
  have d': "duration (tenths_back 1) = duration (tenths 1)"
    "duration (tenths_back 2) = duration (tenths 2)"
    "duration (tenths_back 3) = duration (tenths 3)"
    by (simp_all add: tenths_back_def)
  have a1: "binary64_add (0, 0) (3602879701896397, - 55) = (3602879701896397, - 55)"
    and a2: "binary64_add (3602879701896397, - 55) (3602879701896397, - 54) = (5404319552844596, - 54)"
    and a3: "binary64_add (5404319552844596, - 54) (5404319552844595, - 54) = (5404319552844596, - 53)"
    and b1: "binary64_add (0, 0) (5404319552844595, - 54) = (5404319552844595, - 54)"
    and b2: "binary64_add (5404319552844595, - 54) (3602879701896397, - 54) = (4503599627370496, - 53)"
    and b3: "binary64_add (4503599627370496, - 53) (3602879701896397, - 55) = (5404319552844595, - 53)"
    by (simp_all add: binary64_add_def round53_def Let_def)
  have a: "computeDuration binary64_add (0, 0) tenths (Some 1) = Some (5404319552844596, - 53)"
    unfolding computeDuration_linked [OF l]
    by (simp only: list.map foldl.simps d a1 a2 a3)
  have b: "computeDuration binary64_add (0, 0) tenths_back (Some 3) = Some (5404319552844595, - 53)"
    unfolding computeDuration_linked [OF l']
    by (simp only: list.map foldl.simps d d' b1 b2 b3)
  have v: "binary64_value (5404319552844596, - 53) \<noteq> binary64_value (5404319552844595, - 53)"
    by (simp add: binary64_value_def)
  from e l l' d' a b v show ?thesis by (simp only: simp_thms)
qed

section \<open>Moving a movie up or down\<close>

lemma find_last_only:
  "\<forall>x \<in> set as. \<not> P x \<Longrightarrow> P z \<Longrightarrow> find P (as @ [z]) = Some z"
  by (induction as) auto

lemma MoveMovieDown_loop_noop:
  "linked h (Some a) (a # as) \<Longrightarrow> \<forall>x \<in> set (butlast (a # as)). title (h x) \<noteq> t \<Longrightarrow>
   MoveMovieDown_loop h w a t = Some (Ret (h, w))"
proof (induction as arbitrary: a)
  case Nil
  then show ?case by (subst MoveMovieDown_loop.simps) simp
next
  case (Cons b bs)
  then have "linked h (Some b) (b # bs)" "next (h a) = Some b" "title (h a) \<noteq> t"
    "\<forall>x \<in> set (butlast (b # bs)). title (h x) \<noteq> t" by simp_all
  with Cons.IH [of b] show ?case by (subst MoveMovieDown_loop.simps) simp
qed

text \<open>
  Claim C8. When the first node's title matches, \<open>MoveMovieUp\<close> returns the heap and the
  watchlist as they were; when the last node is the first one whose title matches,
  \<open>MoveMovieDown\<close> does.
\<close>

theorem MoveMovie_boundary_noop:
  "(linked h watchlist (a # as) \<and> title (h a) = t \<longrightarrow>
      MoveMovieUp h watchlist t = Some (Ret (h, watchlist))) \<and>
   (linked h watchlist (as @ [z]) \<and> (\<forall>x \<in> set as. title (h x) \<noteq> t) \<and> title (h z) = t \<longrightarrow>
      MoveMovieDown h watchlist t = Some (Ret (h, watchlist)))"
proof (intro conjI impI)
  assume a: "linked h watchlist (a # as) \<and> title (h a) = t"
  then have w: "watchlist = Some a" by simp
  have "searchByTitle h watchlist t = Some (Some a)"
    using a searchByTitle_linked [of h watchlist "a # as" t] by simp
  then show "MoveMovieUp h watchlist t = Some (Ret (h, watchlist))"
    using a by (simp add: MoveMovieUp_def w)
next
  assume a: "linked h watchlist (as @ [z]) \<and> (\<forall>x \<in> set as. title (h x) \<noteq> t) \<and> title (h z) = t"
  then obtain y ys where c: "as @ [z] = y # ys" by (cases as) auto
  with a have w: "watchlist = Some y" and l: "linked h (Some y) (y # ys)" by auto
  have b: "\<forall>x \<in> set (butlast (y # ys)). title (h x) \<noteq> t"
    using a unfolding c [symmetric] by simp
  have "find (\<lambda>x. title (h x) = t) (as @ [z]) = Some z"
    using a by (intro find_last_only) auto
  then have "searchByTitle h watchlist t = Some (Some z)"
    using a searchByTitle_linked [of h watchlist "as @ [z]" t] by simp
  then show "MoveMovieDown h watchlist t = Some (Ret (h, watchlist))"
    using MoveMovieDown_loop_noop [OF l b] by (simp add: MoveMovieDown_def w)
qed

theorem MoveMovie_boundary_noop_witness:
  "linked alien_up (Some 1) (1 # [2]) \<and> title (alien_up 1) = ''Alien'' \<and>
   MoveMovieUp alien_up (Some 1) ''Alien'' = Some (Ret (alien_up, Some 1)) \<and>
   linked alien_up (Some 1) ([1] @ [2]) \<and> title (alien_up 1) \<noteq> ''Up'' \<and>
   title (alien_up 2) = ''Up'' \<and>
   MoveMovieDown alien_up (Some 1) ''Up'' = Some (Ret (alien_up, Some 1))"
proof -
  have 1: "linked alien_up (Some 1) (1 # [2]) \<and> title (alien_up 1) = ''Alien''"
    by (simp add: alien_up_def)
  have 2: "linked alien_up (Some 1) ([1] @ [2]) \<and> (\<forall>x \<in> set [1]. title (alien_up x) \<noteq> ''Up'') \<and>
     title (alien_up 2) = ''Up''"
    by (simp add: alien_up_def)
  from MoveMovie_boundary_noop [where h = alien_up and watchlist = "Some 1" and a = 1 and as = "[2]"
      and t = "''Alien''"] 1
  have 3: "MoveMovieUp alien_up (Some 1) ''Alien'' = Some (Ret (alien_up, Some 1))" by blast
  from MoveMovie_boundary_noop [where h = alien_up and watchlist = "Some 1" and as = "[1]" and z = 2
      and t = "''Up''"] 2
  have 4: "MoveMovieDown alien_up (Some 1) ''Up'' = Some (Ret (alien_up, Some 1))" by blast
  from 1 2 3 4 show ?thesis by simp
qed

text \<open>
  What either loop does when the match is not at the boundary: it exchanges the \<open>next\<close>
  links of the matching pair \<open>a\<close>, \<open>b\<close> and moves the head pointer when \<open>a\<close> is the
  head, but never relinks the node before \<open>a\<close>. With \<open>a\<close> at the head the pair is
  swapped; otherwise the list read from the head loses \<open>b\<close>.
\<close>

lemma MoveMovieUp_loop_swap:
  "linked h (Some y) (y # ys @ b # zs) \<Longrightarrow> \<forall>x \<in> set ys. title (h x) \<noteq> t \<Longrightarrow> title (h b) = t \<Longrightarrow>
   MoveMovieUp_loop h w y t =
     Some (Ret (h(b := (h b)\<lparr>next := Some (last (y # ys))\<rparr>,
                  last (y # ys) := ((h(b := (h b)\<lparr>next := Some (last (y # ys))\<rparr>)) (last (y # ys)))\<lparr>next := next (h b)\<rparr>),
                if Some (last (y # ys)) = w then Some b else w))"
proof (induction ys arbitrary: y)
  case Nil
  then have n: "next (h y) = Some b" by simp
  have e: "last [y] = y" by simp
  show ?case
    unfolding e using n Nil.prems(3) by (subst MoveMovieUp_loop.simps) (simp add: Let_def)
next
  case (Cons y' ys)
  then have l: "linked h (Some y') (y' # ys @ b # zs)" and n: "next (h y) = Some y'"
    and ne: "title (h y') \<noteq> t" and f: "\<forall>x \<in> set ys. title (h x) \<noteq> t" by simp_all
  have e: "last (y # y' # ys) = last (y' # ys)" by simp
  have "MoveMovieUp_loop h w y t = MoveMovieUp_loop h w y' t"
    using n ne by (subst MoveMovieUp_loop.simps) simp
  then show ?case
    unfolding e using Cons.IH [OF l f Cons.prems(3)] by simp
qed

lemma MoveMovieDown_loop_swap:
  "linked h (Some y) (y # ys @ b # zs) \<Longrightarrow> \<forall>x \<in> set (butlast (y # ys)). title (h x) \<noteq> t \<Longrightarrow>
   title (h (last (y # ys))) = t \<Longrightarrow>
   MoveMovieDown_loop h w y t =
     Some (Ret (h(b := (h b)\<lparr>next := Some (last (y # ys))\<rparr>,
                  last (y # ys) := ((h(b := (h b)\<lparr>next := Some (last (y # ys))\<rparr>)) (last (y # ys)))\<lparr>next := next (h b)\<rparr>),
                if Some (last (y # ys)) = w then Some b else w))"
proof (induction ys arbitrary: y)
  case Nil
  then have n: "next (h y) = Some b" and t: "title (h y) = t" by simp_all
  have e: "last [y] = y" by simp
  show ?case
    unfolding e using n t by (subst MoveMovieDown_loop.simps) (simp add: Let_def)
next
  case (Cons y' ys)
  then have l: "linked h (Some y') (y' # ys @ b # zs)" and n: "next (h y) = Some y'"
    and ne: "title (h y) \<noteq> t" and f: "\<forall>x \<in> set (butlast (y' # ys)). title (h x) \<noteq> t"
    and t: "title (h (last (y' # ys))) = t" by simp_all
  have e: "last (y # y' # ys) = last (y' # ys)" by simp
  have "MoveMovieDown_loop h w y t = MoveMovieDown_loop h w y' t"
    using n ne by (subst MoveMovieDown_loop.simps) simp
  then show ?case
    unfolding e using Cons.IH [OF l f t] by simp
qed

lemma find_first_match:
  "\<forall>x \<in> set xs. \<not> P x \<Longrightarrow> P b \<Longrightarrow> find P (xs @ b # zs) = Some b"
  by (induction xs) auto

lemma MoveMovieUp_effect:
  assumes l: "linked h w (xs @ a # b # zs)" and f: "\<forall>x \<in> set (xs @ [a]). title (h x) \<noteq> t"
    and t: "title (h b) = t"
  shows "MoveMovieUp h w t =
     Some (Ret (h(b := (h b)\<lparr>next := Some a\<rparr>, a := (h a)\<lparr>next := next (h b)\<rparr>),
                if xs = [] then Some b else w))"
proof -
  obtain y ys where c: "xs @ [a] = y # ys" by (cases xs) auto
  have la: "last (y # ys) = a" using c by (metis last_snoc)
  have d: "distinct (xs @ a # b # zs)" using l by (rule linked_distinct)
  then have ab: "a \<noteq> b" by simp
  have e: "xs @ a # b # zs = y # ys @ b # zs" using c by (metis append.assoc append_Cons append_Nil)
  have w: "w = Some y" and ly: "linked h (Some y) (y # ys @ b # zs)" using l unfolding e by simp_all
  have ny: "title (h y) \<noteq> t" and fy: "\<forall>x \<in> set ys. title (h x) \<noteq> t"
    using f unfolding c by simp_all
  have hd: "(Some a = w) = (xs = [])"
  proof (cases xs)
    case Nil
    then show ?thesis using c w by simp
  next
    case (Cons x xs')
    then show ?thesis using c w d by auto
  qed
  have "find (\<lambda>x. title (h x) = t) ((xs @ [a]) @ b # zs) = Some b"
    using f t by (intro find_first_match) auto
  then have s: "searchByTitle h w t = Some (Some b)"
    using searchByTitle_linked [OF l, of t] by simp
  have "MoveMovieUp h w t = MoveMovieUp_loop h w y t"
    using s ny by (simp add: MoveMovieUp_def w)
  also have "\<dots> = Some (Ret (h(b := (h b)\<lparr>next := Some a\<rparr>,
                  a := ((h(b := (h b)\<lparr>next := Some a\<rparr>)) a)\<lparr>next := next (h b)\<rparr>),
                if Some a = w then Some b else w))"
    using MoveMovieUp_loop_swap [OF ly fy t, of w] unfolding la .
  finally show ?thesis unfolding hd using ab by simp
qed

lemma MoveMovieDown_effect:
  assumes l: "linked h w (xs @ a # b # zs)" and f: "\<forall>x \<in> set xs. title (h x) \<noteq> t"
    and t: "title (h a) = t"
  shows "MoveMovieDown h w t =
     Some (Ret (h(b := (h b)\<lparr>next := Some a\<rparr>, a := (h a)\<lparr>next := next (h b)\<rparr>),
                if xs = [] then Some b else w))"
proof -
  obtain y ys where c: "xs @ [a] = y # ys" by (cases xs) auto
  have la: "last (y # ys) = a" and bl: "butlast (y # ys) = xs" using c by (metis last_snoc, metis butlast_snoc)
  have d: "distinct (xs @ a # b # zs)" using l by (rule linked_distinct)
  then have ab: "a \<noteq> b" by simp
  have e: "xs @ a # b # zs = y # ys @ b # zs" using c by (metis append.assoc append_Cons append_Nil)
  have w: "w = Some y" and ly: "linked h (Some y) (y # ys @ b # zs)" using l unfolding e by simp_all
  have hd: "(Some a = w) = (xs = [])"
  proof (cases xs)
    case Nil
    then show ?thesis using c w by simp
  next
    case (Cons x xs')
    then show ?thesis using c w d by auto
  qed
  have "find (\<lambda>x. title (h x) = t) (xs @ a # b # zs) = Some a"
    using f t by (intro find_first_match) auto
  then have s: "searchByTitle h w t = Some (Some a)"
    using searchByTitle_linked [OF l, of t] by simp
  have fy: "\<forall>x \<in> set (butlast (y # ys)). title (h x) \<noteq> t" unfolding bl using f .
  have ty: "title (h (last (y # ys))) = t" unfolding la using t .
  have "MoveMovieDown h w t = MoveMovieDown_loop h w y t"
    using s by (simp add: MoveMovieDown_def w)
  also have "\<dots> = Some (Ret (h(b := (h b)\<lparr>next := Some a\<rparr>,
                  a := ((h(b := (h b)\<lparr>next := Some a\<rparr>)) a)\<lparr>next := next (h b)\<rparr>),
                if Some a = w then Some b else w))"
    using MoveMovieDown_loop_swap [OF ly fy ty, of w] unfolding la .
  finally show ?thesis unfolding hd using ab by simp
qed

lemma linked_after_move:
  assumes l: "linked h w (xs @ a # b # zs)"
  shows "linked (h(b := (h b)\<lparr>next := Some a\<rparr>, a := (h a)\<lparr>next := next (h b)\<rparr>))
           (if xs = [] then Some b else w) (if xs = [] then b # a # zs else xs @ a # zs)"
proof (cases "xs = []")
  case True
  have d: "distinct (a # b # zs)" using l True linked_distinct by fastforce
  have "linked h (next (h b)) zs" using l True by simp
  then show ?thesis using True d by simp
next
  case False
  have d: "distinct (xs @ a # b # zs)" using l by (rule linked_distinct)
  have "linked (h(last (xs @ [a]) := (h (last (xs @ [a])))\<lparr>next := next (h b)\<rparr>,
                  b := (h b)\<lparr>next := Some a\<rparr>)) w ((xs @ [a]) @ zs)"
    using l by (intro linked_unlink) simp_all
  moreover have "h(a := (h a)\<lparr>next := next (h b)\<rparr>, b := (h b)\<lparr>next := Some a\<rparr>) =
     h(b := (h b)\<lparr>next := Some a\<rparr>, a := (h a)\<lparr>next := next (h b)\<rparr>)"
    using d by (intro fun_upd_twist) simp
  ultimately show ?thesis using False by simp
qed

text \<open>
  Claim C3 on the code. The scenario of the claim holds: on Alien, Up, moving Up up gives
  Up, Alien. On the list Alien, Up, Heat, moving Heat up leaves the list Alien, Up: Heat
  is no longer reachable from the head. Moving Up down on the same list gives the same
  heap, again without Heat.
\<close>

theorem MoveMovie_drops_node:
  "linked alien_up (Some 1) [1, 2] \<and>
   MoveMovieUp alien_up (Some 1) ''Up'' = Some (Ret (up_alien, Some 2)) \<and>
   linked up_alien (Some 2) [2, 1] \<and>
   linked three (Some 1) [1, 2, 3] \<and>
   MoveMovieUp three (Some 1) ''Heat'' =
     Some (Ret (three(3 := (three 3)\<lparr>next := Some 2\<rparr>, 2 := (three 2)\<lparr>next := None\<rparr>), Some 1)) \<and>
   linked (three(3 := (three 3)\<lparr>next := Some 2\<rparr>, 2 := (three 2)\<lparr>next := None\<rparr>)) (Some 1) [1, 2] \<and>
   MoveMovieDown three (Some 1) ''Up'' =
     Some (Ret (three(3 := (three 3)\<lparr>next := Some 2\<rparr>, 2 := (three 2)\<lparr>next := None\<rparr>), Some 1))"
proof -
  have l2: "linked alien_up (Some 1) ([] @ 1 # 2 # [])" by (simp add: alien_up_def)
  have l3: "linked three (Some 1) ([1] @ 2 # 3 # [])" by (simp add: three_def alien_up_def)
  have t2: "\<forall>x \<in> set ([] @ [1]). title (alien_up x) \<noteq> ''Up''" "title (alien_up 2) = ''Up''"
    by (simp_all add: alien_up_def)
  have t3: "\<forall>x \<in> set ([1] @ [2]). title (three x) \<noteq> ''Heat''" "title (three 3) = ''Heat''"
    "\<forall>x \<in> set [1]. title (three x) \<noteq> ''Up''" "title (three 2) = ''Up''"
    by (simp_all add: three_def alien_up_def)
  have n: "next (alien_up 2) = None" "next (three 3) = None"
    by (simp_all add: three_def alien_up_def)
  have 1: "MoveMovieUp alien_up (Some 1) ''Up'' = Some (Ret (up_alien, Some 2))"
    using MoveMovieUp_effect [OF l2 t2] unfolding n up_alien_def by simp
  have 2: "MoveMovieUp three (Some 1) ''Heat'' =
     Some (Ret (three(3 := (three 3)\<lparr>next := Some 2\<rparr>, 2 := (three 2)\<lparr>next := None\<rparr>), Some 1))"
    using MoveMovieUp_effect [OF l3 t3(1,2)] unfolding n by simp
  have 3: "MoveMovieDown three (Some 1) ''Up'' =
     Some (Ret (three(3 := (three 3)\<lparr>next := Some 2\<rparr>, 2 := (three 2)\<lparr>next := None\<rparr>), Some 1))"
    using MoveMovieDown_effect [OF l3 t3(3,4)] unfolding n by simp
  have 4: "linked up_alien (Some 2) [2, 1]" by (simp add: up_alien_def)
  have 5: "linked (three(3 := (three 3)\<lparr>next := Some 2\<rparr>, 2 := (three 2)\<lparr>next := None\<rparr>)) (Some 1) [1, 2]"
    using linked_after_move [OF l3] unfolding n by simp
  from l2 l3 1 2 3 4 5 show ?thesis by simp
qed

section \<open>Moving a movie between library and watchlist\<close>

lemma linked_cong: "linked h p as \<Longrightarrow> \<forall>a \<in> set as. h' a = h a \<Longrightarrow> linked h' p as"
  by (induction as arbitrary: p) simp_all

lemma createMovieNode_fails:
  "snd (snd (createMovieNode h fresh t g d)) = None \<Longrightarrow>
   \<exists>st. createMovieNode h fresh t g d = (st, h, None)"
  by (auto simp: createMovieNode_def split: if_splits option.splits)

lemma insertMovie_NULL: "insertMovie h list None position = Some (Ret (EINVAL, h, list))"
  by (simp add: insertMovie_def)

lemma appendMovie_NULL: "appendMovie h list None = Some (EINVAL, h, list)"
  by (simp add: appendMovie_def)

lemma handleAddMovieMenuOption_no_copy:
  assumes c: "createMovieNode h fresh (title (h movie)) (genre (h movie)) (duration (h movie)) = (st, h, None)"
    and g: "getCount h watchlist = Some count"
    and p: "option = InsertWithin \<longrightarrow> promptForInt 1 count entered \<noteq> None"
    and r: "removeMovie h library (Some movie) = Some (Ret (h', library', removed))"
  shows "handleAddMovieMenuOption option movie h library watchlist fresh entered =
           Some (Ret (h', library', watchlist))"
proof (cases option)
  case AddToBeginning
  then show ?thesis
    by (simp add: handleAddMovieMenuOption_def c insertMovie_NULL seq_def r)
next
  case AddToEnd
  then show ?thesis
    by (simp add: handleAddMovieMenuOption_def c appendMovie_NULL seq_def r)
next
  case InsertWithin
  with p obtain position where "promptForInt 1 count entered = Some position" by auto
  then show ?thesis
    using InsertWithin by (simp add: handleAddMovieMenuOption_def c g insertMovie_NULL seq_def r)
qed

lemma RemoveMovie_no_copy:
  assumes s: "searchByTitle h watchlist t = Some (Some temp)"
    and c: "createMovieNode h fresh (title (h temp)) (genre (h temp)) (duration (h temp)) = (st, h, None)"
    and r: "removeMovie h watchlist (Some temp) = Some (Ret (h', watchlist', removed))"
  shows "RemoveMovie h library watchlist t fresh = Some (Ret (h', library, watchlist'))"
  by (simp add: RemoveMovie_def s c r seq_def appendMovie_NULL)

text \<open>
  With a copy in hand the insertion into a well-formed destination does not fail, whichever
  way of adding is chosen: \<open>promptForInt\<close> only returns a position in range. So the
  insertion fails only when there is no copy.
\<close>

lemma promptForInt_range:
  "promptForInt minValue maxValue entered = Some position \<Longrightarrow>
   minValue \<le> position \<and> position \<le> maxValue"
  unfolding promptForInt_def by (auto simp: find_Some_iff)

lemma promptForInt_wraps: "promptForInt 1 3 [7, 4294967297] = Some 1"
  by (simp add: promptForInt_def strtol_def int_of_long_def)

lemma insertion_with_copy:
  assumes "linked h watchlist bs" and "f \<notin> set bs"
  shows "\<exists>h' w'. insertMovie h watchlist (Some f) 0 = Some (Ret (Success, h', w'))"
    and "\<exists>h' w'. appendMovie h watchlist (Some f) = Some (Success, h', w')"
    and "getCount h watchlist = Some count \<Longrightarrow> promptForInt 1 count entered = Some position \<Longrightarrow>
         \<exists>h' w'. insertMovie h watchlist (Some f) (position - 1) = Some (Ret (Success, h', w'))"
proof -
  show "\<exists>h' w'. insertMovie h watchlist (Some f) 0 = Some (Ret (Success, h', w'))"
    by (simp add: insertMovie_front)
  show "\<exists>h' w'. appendMovie h watchlist (Some f) = Some (Success, h', w')"
    using appendMovie_success [OF assms] by blast
  assume "getCount h watchlist = Some count" and p: "promptForInt 1 count entered = Some position"
  then have c: "count = int (length bs)" using getCount_linked [OF assms(1)] by simp
  have "0 \<le> position - 1 \<and> position - 1 < int (length bs)"
    using promptForInt_range [OF p] c by simp
  then have "0 \<le> position - 1 \<and> position - 1 < int (length bs) \<or> bs = [] \<and> position - 1 = 0"
    by simp
  from insertMovie_success [OF assms this]
  show "\<exists>h' w'. insertMovie h watchlist (Some f) (position - 1) = Some (Ret (Success, h', w'))"
    by blast
qed

text \<open>
  Claim C2, as amended. The insertion into the destination fails when the copy could not
  be created (\<open>createMovieNode\<close> returned \<open>NULL\<close>). In that case the destination is exactly
  as before, and the original is removed from the source all the same: the source list is
  the old one without the movie. This holds for \<open>handleAddMovieMenuOption\<close> (library to
  watchlist, whichever way of adding is chosen) and for the \<open>RemoveMovie\<close> case (watchlist
  to library), on disjoint well-formed lists.
\<close>

theorem transfer_without_copy:
  assumes "linked h library as" and "linked h watchlist bs" and "set as \<inter> set bs = {}"
  shows "(movie \<in> set as \<and>
          snd (snd (createMovieNode h fresh (title (h movie)) (genre (h movie)) (duration (h movie)))) = None \<and>
          (option = InsertWithin \<longrightarrow> promptForInt 1 (int (length bs)) entered \<noteq> None) \<longrightarrow>
          (case handleAddMovieMenuOption option movie h library watchlist fresh entered of
             Some (Ret (h', library', watchlist')) \<Rightarrow>
               watchlist' = watchlist \<and> linked h' watchlist' bs \<and> (\<forall>b \<in> set bs. h' b = h b) \<and>
               linked h' library' (remove1 movie as) \<and>
               movies h' (remove1 movie as) = movies h (remove1 movie as)
           | _ \<Rightarrow> False)) \<and>
         (find (\<lambda>x. title (h x) = t) bs = Some temp \<and>
          snd (snd (createMovieNode h fresh (title (h temp)) (genre (h temp)) (duration (h temp)))) = None \<longrightarrow>
          (case RemoveMovie h library watchlist t fresh of
             Some (Ret (h', library', watchlist')) \<Rightarrow>
               library' = library \<and> linked h' library' as \<and> (\<forall>a \<in> set as. h' a = h a) \<and>
               linked h' watchlist' (remove1 temp bs) \<and>
               movies h' (remove1 temp bs) = movies h (remove1 temp bs)
           | _ \<Rightarrow> False))"
proof (intro conjI impI)
  assume a: "movie \<in> set as \<and>
          snd (snd (createMovieNode h fresh (title (h movie)) (genre (h movie)) (duration (h movie)))) = None \<and>
          (option = InsertWithin \<longrightarrow> promptForInt 1 (int (length bs)) entered \<noteq> None)"
  then have "snd (snd (createMovieNode h fresh (title (h movie)) (genre (h movie)) (duration (h movie)))) = None"
    by simp
  from createMovieNode_fails [OF this]
  obtain st where c: "createMovieNode h fresh (title (h movie)) (genre (h movie)) (duration (h movie)) = (st, h, None)"
    by auto
  from removeMovie_success [OF assms(1), of movie] a obtain h' library' where
    r: "removeMovie h library (Some movie) = Some (Ret (h', library', Some movie))"
    and l: "linked h' library' (remove1 movie as)"
    and m: "\<forall>cs. movies h' cs = movies h cs"
    and f: "\<forall>a. a \<notin> set as \<longrightarrow> h' a = h a" by blast
  have fb: "\<forall>b \<in> set bs. h' b = h b" using f assms(3) by auto
  have lb: "linked h' watchlist bs" using assms(2) fb by (rule linked_cong)
  have e: "handleAddMovieMenuOption option movie h library watchlist fresh entered =
           Some (Ret (h', library', watchlist))"
    using c getCount_linked [OF assms(2)] _ r
    by (rule handleAddMovieMenuOption_no_copy) (use a in simp)
  show "case handleAddMovieMenuOption option movie h library watchlist fresh entered of
             Some (Ret (h', library', watchlist')) \<Rightarrow>
               watchlist' = watchlist \<and> linked h' watchlist' bs \<and> (\<forall>b \<in> set bs. h' b = h b) \<and>
               linked h' library' (remove1 movie as) \<and>
               movies h' (remove1 movie as) = movies h (remove1 movie as)
           | _ \<Rightarrow> False"
    using l m fb lb by (simp add: e)
next
  assume a: "find (\<lambda>x. title (h x) = t) bs = Some temp \<and>
          snd (snd (createMovieNode h fresh (title (h temp)) (genre (h temp)) (duration (h temp)))) = None"
  then have "snd (snd (createMovieNode h fresh (title (h temp)) (genre (h temp)) (duration (h temp)))) = None"
    by simp
  from createMovieNode_fails [OF this]
  obtain st where c: "createMovieNode h fresh (title (h temp)) (genre (h temp)) (duration (h temp)) = (st, h, None)"
    by auto
  have tb: "temp \<in> set bs" using a by (auto simp: find_Some_iff)
  have s: "searchByTitle h watchlist t = Some (Some temp)"
    using searchByTitle_linked [OF assms(2), of t] a by simp
  from removeMovie_success [OF assms(2) tb] obtain h' watchlist' where
    r: "removeMovie h watchlist (Some temp) = Some (Ret (h', watchlist', Some temp))"
    and l: "linked h' watchlist' (remove1 temp bs)"
    and m: "\<forall>cs. movies h' cs = movies h cs"
    and f: "\<forall>a. a \<notin> set bs \<longrightarrow> h' a = h a" by blast
  have fa: "\<forall>a \<in> set as. h' a = h a" using f assms(3) by auto
  have la: "linked h' library as" using assms(1) fa by (rule linked_cong)
  have e: "RemoveMovie h library watchlist t fresh = Some (Ret (h', library, watchlist'))"
    using s c r by (rule RemoveMovie_no_copy)
  show "case RemoveMovie h library watchlist t fresh of
             Some (Ret (h', library', watchlist')) \<Rightarrow>
               library' = library \<and> linked h' library' as \<and> (\<forall>a \<in> set as. h' a = h a) \<and>
               linked h' watchlist' (remove1 temp bs) \<and>
               movies h' (remove1 temp bs) = movies h (remove1 temp bs)
           | _ \<Rightarrow> False"
    using l m fa la by (simp add: e)
qed

theorem transfer_without_copy_witness:
  "linked alien_up (Some 1) [1, 2] \<and> linked alien_up (Some 3) [3] \<and>
   set [1, 2] \<inter> set [3] = ({} :: addr set) \<and> (1 :: addr) \<in> set [1, 2] \<and>
   snd (snd (createMovieNode alien_up None (title (alien_up 1)) (genre (alien_up 1))
     (duration (alien_up 1)))) = None \<and>
   promptForInt 1 (int (length [3 :: addr])) [5, 1] = Some 1 \<and>
   (case handleAddMovieMenuOption InsertWithin 1 alien_up (Some 1) (Some 3) None [5, 1] of
      Some (Ret (h', library', watchlist')) \<Rightarrow>
        watchlist' = Some 3 \<and> linked h' watchlist' [3] \<and> linked h' library' [2]
    | _ \<Rightarrow> False) \<and>
   find (\<lambda>x. title (alien_up x) = ''Heat'') [3] = Some 3 \<and>
   snd (snd (createMovieNode alien_up None (title (alien_up 3)) (genre (alien_up 3))
     (duration (alien_up 3)))) = None \<and>
   (case RemoveMovie alien_up (Some 1) (Some 3) ''Heat'' None of
      Some (Ret (h', library', watchlist')) \<Rightarrow>
        library' = Some 1 \<and> linked h' library' [1, 2] \<and> linked h' watchlist' []
    | _ \<Rightarrow> False)"
proof -
  have l: "linked alien_up (Some 1) [1, 2]" and w: "linked alien_up (Some 3) [3]"
    by (simp_all add: alien_up_def)
  have d: "set [1, 2] \<inter> set [3] = ({} :: addr set)" by simp
  have m: "(1 :: addr) \<in> set [1, 2]" by simp
  have c1: "snd (snd (createMovieNode alien_up None (title (alien_up 1)) (genre (alien_up 1))
     (duration (alien_up 1)))) = None"
    and c3: "snd (snd (createMovieNode alien_up None (title (alien_up 3)) (genre (alien_up 3))
     (duration (alien_up 3)))) = None"
    by (simp_all add: createMovieNode_def)
  have p: "promptForInt 1 (int (length [3 :: addr])) [5, 1] = Some 1"
    by (simp add: promptForInt_def strtol_def int_of_long_def)
  have f: "find (\<lambda>x. title (alien_up x) = ''Heat'') [3] = Some 3"
    by (simp add: alien_up_def)
  note T = transfer_without_copy [OF l w d, where movie = 1 and fresh = None
      and option = InsertWithin and entered = "[5, 1]" and t = "''Heat''" and temp = 3]
  have a: "case handleAddMovieMenuOption InsertWithin 1 alien_up (Some 1) (Some 3) None [5, 1] of
      Some (Ret (h', library', watchlist')) \<Rightarrow>
        watchlist' = Some 3 \<and> linked h' watchlist' [3] \<and> linked h' library' [2]
    | _ \<Rightarrow> False"
    using T m c1 p by (auto split: option.splits outcome.splits)
  have b: "case RemoveMovie alien_up (Some 1) (Some 3) ''Heat'' None of
      Some (Ret (h', library', watchlist')) \<Rightarrow>
        library' = Some 1 \<and> linked h' library' [1, 2] \<and> linked h' watchlist' []
    | _ \<Rightarrow> False"
    using T f c3 by (auto split: option.splits outcome.splits)
  from l w d m c1 p a f c3 b show ?thesis by (simp only: simp_thms)
qed

text \<open>
  The claim as stated fails when \<open>calloc\<close> fails: with the library Alien, Up and an empty
  watchlist, adding Alien leaves the watchlist empty (the insertion returned \<open>EINVAL\<close>)
  and the library is Up alone. The same happens in the other direction.
\<close>

theorem transfer_not_atomic_counterexample:
  "linked alien_up (Some 1) [1, 2] \<and>
   insertMovie alien_up None None 0 = Some (Ret (EINVAL, alien_up, None)) \<and>
   handleAddMovieMenuOption AddToBeginning 1 alien_up (Some 1) None None [] =
     Some (Ret (alien_up, Some 2, None)) \<and>
   linked alien_up (Some 2) [2] \<and>
   appendMovie alien_up None None = Some (EINVAL, alien_up, None) \<and>
   RemoveMovie alien_up None (Some 1) ''Alien'' None = Some (Ret (alien_up, None, Some 2))"
proof -
  have l: "linked alien_up (Some 1) [1, 2]" and l2: "linked alien_up (Some 2) [2]"
    by (simp_all add: alien_up_def)
  have n: "next (alien_up 1) = Some 2" by (simp add: alien_up_def)
  have c: "createMovieNode alien_up None (title (alien_up 1)) (genre (alien_up 1))
     (duration (alien_up 1)) = (ENOMEM, alien_up, None)"
    by (simp add: createMovieNode_def alien_up_def)
  have r: "removeMovie alien_up (Some 1) (Some 1) = Some (Ret (alien_up, Some 2, Some 1))"
    unfolding removeMovie_head n ..
  have g: "getCount alien_up None = Some 0" by (simp add: getCount_def)
  have t1: "title (alien_up 1) = ''Alien''" by (simp add: alien_up_def)
  have a: "handleAddMovieMenuOption AddToBeginning 1 alien_up (Some 1) None None [] =
     Some (Ret (alien_up, Some 2, None))"
    using c g _ r by (rule handleAddMovieMenuOption_no_copy) simp
  have s: "searchByTitle alien_up (Some 1) ''Alien'' = Some (Some 1)"
    by (simp only: searchByTitle_linked [OF l] find.simps t1 simp_thms if_True)
  have b: "RemoveMovie alien_up None (Some 1) ''Alien'' None = Some (Ret (alien_up, None, Some 2))"
    using s c r by (rule RemoveMovie_no_copy)
  from l l2 a b show ?thesis by (simp add: insertMovie_NULL appendMovie_NULL)
qed

section \<open>loadMovieWatchlist\<close>

lemma movies_eq_fields:
  assumes "\<forall>bs. movies h' bs = movies h bs"
  shows "title (h' a) = title (h a) \<and> genre (h' a) = genre (h a) \<and> duration (h' a) = duration (h a)"
proof -
  from assms have "movies h' [a] = movies h [a]" by blast
  then show ?thesis by (simp add: movies_def)
qed

lemma first_titled_cong:
  "\<forall>a \<in> set as. title (h' a) = title (h a) \<Longrightarrow> first_titled h' t as = first_titled h t as"
  unfolding first_titled_def by (induction as) simp_all

lemma first_titled_in: "first_titled h t as = Some a \<Longrightarrow> a \<in> set as \<and> title (h a) = t"
  unfolding first_titled_def by (auto simp: find_Some_iff)

lemma load_step:
  assumes l: "linked h library as" and w: "linked h watchlist ws"
    and dj: "set as \<inter> set ws = {}" and f: "f \<notin> set as \<union> set ws"
    and len: "length t \<le> 34" "length g \<le> 34"
  shows "\<exists>h' library' watchlist'.
     loadMovieWatchlist_loop h library watchlist ((t, g, d, Some f) # records) =
       loadMovieWatchlist_loop h' library' watchlist' records \<and>
     linked h' library' (case first_titled h t as of None \<Rightarrow> as | Some a \<Rightarrow> remove1 a as) \<and>
     linked h' watchlist' (ws @ [f]) \<and>
     title (h' f) = t \<and> genre (h' f) = g \<and> duration (h' f) = d \<and>
     (\<forall>a. a \<noteq> f \<longrightarrow> title (h' a) = title (h a) \<and> genre (h' a) = genre (h a) \<and>
        duration (h' a) = duration (h a))"
proof -
  define h1 where "h1 = h(f := \<lparr>title = t, genre = g, duration = d, next = None\<rparr>)"
  have c: "createMovieNode h (Some f) t g d = (Success, h1, Some f)"
    using len by (simp add: createMovieNode_def h1_def)
  have l1: "linked h1 library as" and w1: "linked h1 watchlist ws"
    using l w f by (simp_all add: h1_def)
  have f1: "f \<notin> set ws" using f by simp
  from appendMovie_success [OF w1 f1] obtain h2 where
    a: "appendMovie h1 watchlist (Some f) = Some (Success, h2, if ws = [] then Some f else watchlist)"
    and w2: "linked h2 (if ws = [] then Some f else watchlist) (ws @ [f])"
    and m2: "\<forall>bs. movies h2 bs = movies h1 bs"
    and fr2: "\<forall>a. a \<notin> set ws \<and> a \<noteq> f \<longrightarrow> h2 a = h1 a" by blast
  define w' where "w' = (if ws = [] then Some f else watchlist)"
  have d2: "\<And>a. title (h2 a) = title (h1 a) \<and> genre (h2 a) = genre (h1 a) \<and> duration (h2 a) = duration (h1 a)"
    using m2 by (rule movies_eq_fields)
  have tf: "title (h2 f) = t" "genre (h2 f) = g" "duration (h2 f) = d"
    using d2 [of f] by (simp_all add: h1_def)
  have o2: "\<And>a. a \<noteq> f \<Longrightarrow> title (h2 a) = title (h a) \<and> genre (h2 a) = genre (h a) \<and>
        duration (h2 a) = duration (h a)"
    using d2 by (simp add: h1_def)
  have "\<forall>a \<in> set as. h2 a = h1 a" using fr2 dj f by auto
  with l1 have l2: "linked h2 library as" by (rule linked_cong)
  have "\<forall>a \<in> set as. title (h2 a) = title (h a)" using o2 f by (metis UnI1)
  then have ft: "first_titled h2 t as = first_titled h t as" by (rule first_titled_cong)
  have s: "searchByTitle h2 library (title (h2 f)) = Some (first_titled h t as)"
    using searchByTitle_linked [OF l2, of t] ft by (simp add: tf first_titled_def)
  have u: "loadMovieWatchlist_loop h library watchlist ((t, g, d, Some f) # records) =
     (case first_titled h t as of
        None \<Rightarrow> loadMovieWatchlist_loop h2 library w' records
      | Some temp \<Rightarrow>
          seq (removeMovie h2 library (Some temp)) (\<lambda>(h3, library3, removed).
            loadMovieWatchlist_loop h3 library3 w' records))"
    by (simp add: c a s w'_def split: option.split)
  let ?P = "\<lambda>h' library' watchlist'.
     loadMovieWatchlist_loop h library watchlist ((t, g, d, Some f) # records) =
       loadMovieWatchlist_loop h' library' watchlist' records \<and>
     linked h' library' (case first_titled h t as of None \<Rightarrow> as | Some a \<Rightarrow> remove1 a as) \<and>
     linked h' watchlist' (ws @ [f]) \<and>
     title (h' f) = t \<and> genre (h' f) = g \<and> duration (h' f) = d \<and>
     (\<forall>a. a \<noteq> f \<longrightarrow> title (h' a) = title (h a) \<and> genre (h' a) = genre (h a) \<and>
        duration (h' a) = duration (h a))"
  show ?thesis
  proof (cases "first_titled h t as")
    case None
    have e: "loadMovieWatchlist_loop h library watchlist ((t, g, d, Some f) # records) =
       loadMovieWatchlist_loop h2 library w' records"
      unfolding u None by simp
    have "?P h2 library w'"
      using e l2 w2 tf o2 unfolding None w'_def [symmetric]
      by (simp del: loadMovieWatchlist_loop.simps)
    then show ?thesis by (intro exI)
  next
    case (Some temp)
    then have ta: "temp \<in> set as" by (simp add: first_titled_in)
    from removeMovie_success [OF l2 ta] obtain h3 library3 where
      r: "removeMovie h2 library (Some temp) = Some (Ret (h3, library3, Some temp))"
      and l3: "linked h3 library3 (remove1 temp as)"
      and m3: "\<forall>bs. movies h3 bs = movies h2 bs"
      and fr3: "\<forall>a. a \<notin> set as \<longrightarrow> h3 a = h2 a" by blast
    have d3: "\<And>a. title (h3 a) = title (h2 a) \<and> genre (h3 a) = genre (h2 a) \<and> duration (h3 a) = duration (h2 a)"
      using m3 by (rule movies_eq_fields)
    have "\<forall>a \<in> set (ws @ [f]). h3 a = h2 a" using fr3 dj f by auto
    with w2 have w3: "linked h3 w' (ws @ [f])" unfolding w'_def by (rule linked_cong)
    have e: "loadMovieWatchlist_loop h library watchlist ((t, g, d, Some f) # records) =
       loadMovieWatchlist_loop h3 library3 w' records"
      unfolding u Some by (simp add: r seq_def)
    have 1: "title (h3 f) = t \<and> genre (h3 f) = g \<and> duration (h3 f) = d" using d3 [of f] tf by simp
    have 2: "\<forall>a. a \<noteq> f \<longrightarrow> title (h3 a) = title (h a) \<and> genre (h3 a) = genre (h a) \<and>
        duration (h3 a) = duration (h a)" using d3 o2 by simp
    have "?P h3 library3 w'"
      using e l3 w3 1 2 unfolding Some
      by (simp del: loadMovieWatchlist_loop.simps)
    then show ?thesis by (intro exI)
  qed
qed

lemma remove_first_subset:
  "set (case first_titled h t as of None \<Rightarrow> as | Some a \<Rightarrow> remove1 a as) \<subseteq> set as"
  using set_remove1_subset [of _ as] by (cases "first_titled h t as") auto

lemma remove_titles_subset: "set (remove_titles h as ts) \<subseteq> set as"
proof (induction ts arbitrary: as)
  case Nil
  then show ?case by simp
next
  case (Cons t ts)
  have "set (case first_titled h t as of None \<Rightarrow> as | Some a \<Rightarrow> remove1 a as) \<subseteq> set as"
    by (rule remove_first_subset)
  with Cons [of "case first_titled h t as of None \<Rightarrow> as | Some a \<Rightarrow> remove1 a as"]
  show ?case by auto
qed

lemma remove_titles_cong:
  "\<forall>a \<in> set as. title (h' a) = title (h a) \<Longrightarrow> remove_titles h' as ts = remove_titles h as ts"
proof (induction ts arbitrary: as)
  case Nil
  then show ?case by simp
next
  case (Cons t ts)
  let ?as = "case first_titled h t as of None \<Rightarrow> as | Some a \<Rightarrow> remove1 a as"
  have s: "set ?as \<subseteq> set as" by (rule remove_first_subset)
  have "first_titled h' t as = first_titled h t as" using Cons.prems by (rule first_titled_cong)
  moreover have "remove_titles h' ?as ts = remove_titles h ?as ts"
    using Cons.prems s by (intro Cons.IH) blast
  ultimately show ?case by simp
qed

lemma first_titled_None: "first_titled h t as = None \<Longrightarrow> \<forall>a \<in> set as. title (h a) \<noteq> t"
  unfolding first_titled_def by (simp add: find_None_iff)

lemma remove_titles_distinct:
  "distinct (map (\<lambda>a. title (h a)) as) \<Longrightarrow>
   set (remove_titles h as ts) = {a \<in> set as. title (h a) \<notin> set ts}"
proof (induction ts arbitrary: as)
  case Nil
  then show ?case by simp
next
  case (Cons t ts)
  show ?case
  proof (cases "first_titled h t as")
    case None
    then have "\<forall>a \<in> set as. title (h a) \<noteq> t" by (rule first_titled_None)
    then show ?thesis using Cons.IH [OF Cons.prems] None by auto
  next
    case (Some a)
    then have a: "a \<in> set as" "title (h a) = t" by (simp_all add: first_titled_in)
    have da: "distinct as" and inj: "inj_on (\<lambda>a. title (h a)) (set as)"
      using Cons.prems by (simp_all add: distinct_map)
    have u: "\<And>x. x \<in> set as \<Longrightarrow> (x \<noteq> a) = (title (h x) \<noteq> t)"
      using inj a by (auto dest: inj_onD)
    have s: "set (remove1 a as) = set as - {a}" using da by simp
    have "distinct (map (\<lambda>a. title (h a)) (remove1 a as))"
      using da inj s by (auto simp: distinct_map intro: inj_on_subset)
    from Cons.IH [OF this]
    have "set (remove_titles h (remove1 a as) ts) = {x \<in> set as - {a}. title (h x) \<notin> set ts}"
      unfolding s .
    also have "\<dots> = {x \<in> set as. title (h x) \<notin> set (t # ts)}" using u by auto
    finally show ?thesis using Some by simp
  qed
qed

lemma load_loop:
  assumes "linked h library as" and "linked h watchlist ws" and "set as \<inter> set ws = {}"
    and "distinct (fresh_of recs)" and "set (fresh_of recs) \<inter> (set as \<union> set ws) = {}"
    and "\<forall>(t, g, d, f) \<in> set recs. length t \<le> 34 \<and> length g \<le> 34"
  shows "\<exists>h' library' watchlist'.
     loadMovieWatchlist_loop h library watchlist (records_of recs) =
       Some (Ret (h', library', watchlist')) \<and>
     linked h' library' (remove_titles h as (map fst recs)) \<and>
     linked h' watchlist' (ws @ fresh_of recs) \<and>
     movies h' (fresh_of recs) = data_of recs \<and>
     (\<forall>a. a \<notin> set (fresh_of recs) \<longrightarrow> title (h' a) = title (h a) \<and> genre (h' a) = genre (h a) \<and>
        duration (h' a) = duration (h a))"
  using assms
proof (induction recs arbitrary: h library watchlist as ws)
  case Nil
  then show ?case by (simp add: records_of_def fresh_of_def data_of_def movies_def)
next
  case (Cons r recs)
  obtain t g d f where r: "r = (t, g, d, f)" by (cases r) auto
  let ?as = "case first_titled h t as of None \<Rightarrow> as | Some a \<Rightarrow> remove1 a as"
  have sub: "set ?as \<subseteq> set as" by (rule remove_first_subset)
  have f: "f \<notin> set as \<union> set ws" and len: "length t \<le> 34" "length g \<le> 34"
    and ff: "f \<notin> set (fresh_of recs)" and dr: "distinct (fresh_of recs)"
    and fr: "set (fresh_of recs) \<inter> (set as \<union> set ws) = {}"
    and lens: "\<forall>(t, g, d, f) \<in> set recs. length t \<le> 34 \<and> length g \<le> 34"
    using Cons.prems(4,5,6) by (auto simp: r fresh_of_def)
  from load_step [OF Cons.prems(1,2,3) f len, of d "records_of recs"]
  obtain h1 library1 watchlist1 where
    e: "loadMovieWatchlist_loop h library watchlist ((t, g, d, Some f) # records_of recs) =
       loadMovieWatchlist_loop h1 library1 watchlist1 (records_of recs)"
    and l1: "linked h1 library1 ?as" and w1: "linked h1 watchlist1 (ws @ [f])"
    and tf: "title (h1 f) = t" "genre (h1 f) = g" "duration (h1 f) = d"
    and o1: "\<forall>a. a \<noteq> f \<longrightarrow> title (h1 a) = title (h a) \<and> genre (h1 a) = genre (h a) \<and>
        duration (h1 a) = duration (h a)" by blast
  have dj1: "set ?as \<inter> set (ws @ [f]) = {}" using sub Cons.prems(3) f by auto
  have fr1: "set (fresh_of recs) \<inter> (set ?as \<union> set (ws @ [f])) = {}" using sub fr ff by auto
  from Cons.IH [OF l1 w1 dj1 dr fr1 lens]
  obtain h' library' watchlist' where
    e': "loadMovieWatchlist_loop h1 library1 watchlist1 (records_of recs) =
       Some (Ret (h', library', watchlist'))"
    and l': "linked h' library' (remove_titles h1 ?as (map fst recs))"
    and w': "linked h' watchlist' ((ws @ [f]) @ fresh_of recs)"
    and m': "movies h' (fresh_of recs) = data_of recs"
    and o': "\<forall>a. a \<notin> set (fresh_of recs) \<longrightarrow> title (h' a) = title (h1 a) \<and>
        genre (h' a) = genre (h1 a) \<and> duration (h' a) = duration (h1 a)" by blast
  have "\<forall>a \<in> set ?as. title (h1 a) = title (h a)" using o1 sub f by auto
  then have rt: "remove_titles h1 ?as (map fst recs) = remove_titles h ?as (map fst recs)"
    by (rule remove_titles_cong)
  have 1: "loadMovieWatchlist_loop h library watchlist (records_of (r # recs)) =
       Some (Ret (h', library', watchlist'))"
    using e e' by (simp add: records_of_def r del: loadMovieWatchlist_loop.simps)
  have 2: "linked h' library' (remove_titles h as (map fst (r # recs)))"
    using l' unfolding rt by (simp add: r)
  have 3: "linked h' watchlist' (ws @ fresh_of (r # recs))"
    using w' by (simp add: fresh_of_def r)
  have 4: "movies h' (fresh_of (r # recs)) = data_of (r # recs)"
    using m' o' ff tf by (simp add: fresh_of_def data_of_def r movies_def)
  have 5: "\<forall>a. a \<notin> set (fresh_of (r # recs)) \<longrightarrow> title (h' a) = title (h a) \<and>
     genre (h' a) = genre (h a) \<and> duration (h' a) = duration (h a)"
    using o' o1 by (simp add: fresh_of_def r)
  from 1 2 3 4 5 show ?case by blast
qed

text \<open>
  Claim C10, as amended. When every record of the file gets its node, the load appends
  the new movies to the new watchlist in file order, and for each record removes the first
  library node with the record's title, if there is one: the library is left with
  \<open>remove_titles\<close> of its nodes, their data unchanged. Each record removes at most one
  node, so only when the library's titles are pairwise distinct does it follow that the
  library keeps exactly the nodes whose title was not loaded, and that no title is in both
  collections afterwards.
\<close>

theorem loadMovieWatchlist_moves_titles:
  assumes "linked h library as" and "distinct (fresh_of recs)"
    and "set (fresh_of recs) \<inter> set as = {}"
    and "\<forall>(t, g, d, f) \<in> set recs. length t \<le> 34 \<and> length g \<le> 34"
  shows "case loadMovieWatchlist h library (records_of recs) of
      Some (Ret (h', library', watchlist')) \<Rightarrow>
        linked h' watchlist' (fresh_of recs) \<and> movies h' (fresh_of recs) = data_of recs \<and>
        linked h' library' (remove_titles h as (map fst recs)) \<and>
        movies h' (remove_titles h as (map fst recs)) =
          movies h (remove_titles h as (map fst recs)) \<and>
        (distinct (map (\<lambda>a. title (h a)) as) \<longrightarrow>
           set (remove_titles h as (map fst recs)) = {a \<in> set as. title (h a) \<notin> fst ` set recs} \<and>
           (\<forall>a \<in> set (remove_titles h as (map fst recs)). \<forall>b \<in> set (fresh_of recs).
              title (h' a) \<noteq> title (h' b)))
    | _ \<Rightarrow> False"
proof -
  let ?rest = "remove_titles h as (map fst recs)"
  have e: "linked h None []" "set as \<inter> set [] = {}"
    "set (fresh_of recs) \<inter> (set as \<union> set []) = {}" using assms(3) by simp_all
  from load_loop [OF assms(1) e(1,2) assms(2) e(3) assms(4)]
  obtain h' library' watchlist' where
    r: "loadMovieWatchlist h library (records_of recs) = Some (Ret (h', library', watchlist'))"
    and l: "linked h' library' ?rest"
    and w: "linked h' watchlist' (fresh_of recs)"
    and m: "movies h' (fresh_of recs) = data_of recs"
    and o: "\<forall>a. a \<notin> set (fresh_of recs) \<longrightarrow> title (h' a) = title (h a) \<and>
        genre (h' a) = genre (h a) \<and> duration (h' a) = duration (h a)"
    unfolding loadMovieWatchlist_def by auto
  have sub: "set ?rest \<subseteq> set as" by (rule remove_titles_subset)
  then have nf: "\<forall>a \<in> set ?rest. a \<notin> set (fresh_of recs)" using assms(3) by auto
  have 1: "movies h' ?rest = movies h ?rest"
    using o nf by (simp add: movies_def)
  have tb: "\<forall>b \<in> set (fresh_of recs). title (h' b) \<in> fst ` set recs"
  proof
    fix b assume "b \<in> set (fresh_of recs)"
    then obtain i where i: "i < length recs" "b = fresh_of recs ! i"
      by (auto simp: in_set_conv_nth fresh_of_def)
    have "movies h' (fresh_of recs) ! i = data_of recs ! i" using m by simp
    then have "title (h' b) = fst (recs ! i)"
      using i by (simp add: movies_def fresh_of_def data_of_def split_beta)
    then show "title (h' b) \<in> fst ` set recs" using i(1) by auto
  qed
  have 2: "distinct (map (\<lambda>a. title (h a)) as) \<longrightarrow>
           set ?rest = {a \<in> set as. title (h a) \<notin> fst ` set recs} \<and>
           (\<forall>a \<in> set ?rest. \<forall>b \<in> set (fresh_of recs). title (h' a) \<noteq> title (h' b))"
  proof
    assume d: "distinct (map (\<lambda>a. title (h a)) as)"
    have s: "set ?rest = {a \<in> set as. title (h a) \<notin> fst ` set recs}"
      using remove_titles_distinct [OF d, of "map fst recs"] by simp
    have "\<forall>a \<in> set ?rest. title (h' a) \<notin> fst ` set recs"
      using s o nf by auto
    with tb s show "set ?rest = {a \<in> set as. title (h a) \<notin> fst ` set recs} \<and>
           (\<forall>a \<in> set ?rest. \<forall>b \<in> set (fresh_of recs). title (h' a) \<noteq> title (h' b))"
      by metis
  qed
  from l w m 1 2 show ?thesis by (simp add: r)
qed

theorem loadMovieWatchlist_moves_titles_witness:
  "linked alien_up (Some 1) [1, 2] \<and> distinct (fresh_of [(''Up'', ''Animation'', 1.6 :: real, 4)]) \<and>
   set (fresh_of [(''Up'', ''Animation'', 1.6 :: real, 4)]) \<inter> set [1, 2] = {} \<and>
   length ''Up'' \<le> 34 \<and> length ''Animation'' \<le> 34 \<and>
   distinct (map (\<lambda>a. title (alien_up a)) [1, 2]) \<and>
   (case loadMovieWatchlist alien_up (Some 1) (records_of [(''Up'', ''Animation'', 1.6, 4)]) of
      Some (Ret (h', library', watchlist')) \<Rightarrow>
        linked h' watchlist' [4] \<and> movies h' [4] = [(''Up'', ''Animation'', 1.6)] \<and>
        linked h' library' [1] \<and> movies h' [1] = [(''Alien'', ''Sci-Fi'', 1.5)] \<and>
        title (h' 1) \<noteq> title (h' 4)
    | _ \<Rightarrow> False)"
proof -
  let ?recs = "[(''Up'', ''Animation'', 1.6 :: real, 4 :: addr)]"
  have l: "linked alien_up (Some 1) [1, 2]" by (simp add: alien_up_def)
  have d: "distinct (fresh_of ?recs)" and i: "set (fresh_of ?recs) \<inter> set [1, 2] = {}"
    and n: "\<forall>(t, g, d, f) \<in> set ?recs. length t \<le> 34 \<and> length g \<le> 34"
    by (simp_all add: fresh_of_def)
  have dt: "distinct (map (\<lambda>a. title (alien_up a)) [1, 2])" by (simp add: alien_up_def)
  have rt: "remove_titles alien_up [1, 2] (map fst ?recs) = [1]"
    by (simp add: first_titled_def alien_up_def)
  have mv: "movies alien_up [1] = [(''Alien'', ''Sci-Fi'', 1.5)]"
    by (simp add: movies_def alien_up_def)
  have fo: "fresh_of ?recs = [4]" "data_of ?recs = [(''Up'', ''Animation'', 1.6)]"
    by (simp_all add: fresh_of_def data_of_def)
  note T = loadMovieWatchlist_moves_titles [OF l d i n, unfolded rt fo mv]
  have "case loadMovieWatchlist alien_up (Some 1) (records_of ?recs) of
      Some (Ret (h', library', watchlist')) \<Rightarrow>
        linked h' watchlist' [4] \<and> movies h' [4] = [(''Up'', ''Animation'', 1.6)] \<and>
        linked h' library' [1] \<and> movies h' [1] = [(''Alien'', ''Sci-Fi'', 1.5)] \<and>
        title (h' 1) \<noteq> title (h' 4)
    | _ \<Rightarrow> False"
    using T dt by (auto split: option.splits outcome.splits)
  with l d i dt show ?thesis by simp
qed

text \<open>
  The claim as stated fails on a library that holds a title twice: loading the one record
  Up into the library Up, Up removes node 1 only, and afterwards the library (node 2) and
  the watchlist (node 3) both hold Up.
\<close>

theorem loadMovieWatchlist_duplicate_counterexample:
  "linked up_up (Some 1) [1, 2] \<and> title (up_up 1) = ''Up'' \<and> title (up_up 2) = ''Up'' \<and>
   loadMovieWatchlist up_up (Some 1) [(''Up'', ''Animation'', 1.6, Some 3)] =
     Some (Ret (up_up(3 := \<lparr>title = ''Up'', genre = ''Animation'', duration = 1.6, next = None\<rparr>),
                Some 2, Some 3)) \<and>
   title ((up_up(3 := \<lparr>title = ''Up'', genre = ''Animation'', duration = 1.6, next = None\<rparr>)) 2) =
     ''Up'' \<and>
   title ((up_up(3 := \<lparr>title = ''Up'', genre = ''Animation'', duration = 1.6, next = None\<rparr>)) 3) =
     ''Up'' \<and>
   linked (up_up(3 := \<lparr>title = ''Up'', genre = ''Animation'', duration = 1.6, next = None\<rparr>))
     (Some 2) [2] \<and>
   linked (up_up(3 := \<lparr>title = ''Up'', genre = ''Animation'', duration = 1.6, next = None\<rparr>))
     (Some 3) [3]"
  by (simp add: loadMovieWatchlist_def createMovieNode_def appendMovie_def searchByTitle_def
      searchByTitle_loop.simps removeMovie_def seq_def up_up_def)

end
